theory Spec2Isabelle
  imports Complex_Main "HOL-Library.Multiset"
begin

section \<open>Data model of the trace visualizer\<close>

text \<open>
  The embedding follows \<^verbatim>\<open>tools/debug-ui/src/trace_visualizer/TraceVisualizer.tsx\<close>.
  A JavaScript \<^verbatim>\<open>number\<close> that holds a time or a pixel coordinate is a rational
  (exact arithmetic, no rounding, no NaN); a \<^verbatim>\<open>number\<close> that holds a row count
  (\<^verbatim>\<open>height_level\<close>, a bounding box's \<^verbatim>\<open>height\<close>) is a natural number: it starts
  at 0 or 1 and only \<^verbatim>\<open>+= 1\<close>, \<^verbatim>\<open>+\<close> and \<^verbatim>\<open>Math.max\<close> touch it.
\<close>

record AttributeValue =
  stringValue :: string
  intValue :: int
  boolValue :: bool
  doubleValue :: rat

record KeyValue =
  key :: string
  kv_value :: AttributeValue

record Event =
  timeUnixNano :: rat
  event_name :: string
  event_attributes :: "KeyValue list"

record Resource =
  resource_attributes :: "KeyValue list"

text \<open>
  \<^verbatim>\<open>type VisSpan\<close>. A span object whose children are reached without sharing and
  without cycles is the tree value below; the in-place writes to \<^verbatim>\<open>height_level\<close>
  become functions that return the updated tree.
\<close>

datatype VisSpan = VisSpan
  (spanId: string)
  (name: string)
  (startTime: rat)
  (endTime: rat)
  (parentSpanId: string)
  (children: "VisSpan list")
  (events: "Event list")
  (resource: Resource)
  (attributes: "KeyValue list")
  (height_level: nat)

record SpanBoundingBox =
  start_time :: rat
  end_time :: rat
  height :: nat

record VisNode =
  node_name :: string
  node_attributes :: "(string \<times> string) list"

record NodeSpans =
  ns_node :: VisNode
  ns_spans :: "VisSpan list"
  ns_bbox :: SpanBoundingBox

text \<open>The two field writes the layout performs on a span object.\<close>

fun set_height_level :: "VisSpan \<Rightarrow> nat \<Rightarrow> VisSpan" where
  "set_height_level (VisSpan i n s e p cs ev r a l) l' = VisSpan i n s e p cs ev r a l'"

fun set_children :: "VisSpan \<Rightarrow> VisSpan list \<Rightarrow> VisSpan" where
  "set_children (VisSpan i n s e p cs ev r a l) cs' = VisSpan i n s e p cs' ev r a l"

section \<open>Objects used as dictionaries\<close>

text \<open>
  \<^verbatim>\<open>spanIdToSpan\<close>, \<^verbatim>\<open>nodes_by_name\<close> and \<^verbatim>\<open>spans_by_node_name\<close> are objects created
  as \<^verbatim>\<open>{}\<close> and asked with the operator \<^verbatim>\<open>in\<close>. The operator is true of the keys the
  program has stored and also of the keys the object inherits from
  \<^verbatim>\<open>Object.prototype\<close>, which are listed below. What is read under an inherited key is
  a function, or \<^verbatim>\<open>Object.prototype\<close> for the key \<^verbatim>\<open>__proto__\<close>: it has neither
  \<^verbatim>\<open>children\<close> nor \<^verbatim>\<open>push\<close>, and the call the program makes on it throws a
  \<^verbatim>\<open>TypeError\<close>. A function that may throw returns \<open>Inl\<close> of the error, and \<open>Inr\<close> of
  its result otherwise.
\<close>

datatype error = TypeError

definition Object_prototype_keys :: "string list" where
  "Object_prototype_keys =
     [''constructor'', ''__defineGetter__'', ''__defineSetter__'', ''hasOwnProperty'',
      ''__lookupGetter__'', ''__lookupSetter__'', ''isPrototypeOf'', ''propertyIsEnumerable'',
      ''toString'', ''valueOf'', ''__proto__'', ''toLocaleString'']"

text \<open>The fields of a \<^verbatim>\<open>VisSpan\<close> object, which are its keys.\<close>

definition VisSpan_keys :: "string list" where
  "VisSpan_keys =
     [''spanId'', ''name'', ''startTime'', ''endTime'', ''parentSpanId'', ''children'',
      ''events'', ''resource'', ''attributes'', ''height_level'']"

text \<open>
  A \<^verbatim>\<open>for (let x of xs)\<close> loop over a state, with a body that may throw: the first error
  ends the loop and is the result.
\<close>

fun for_each :: "('a \<Rightarrow> 's \<Rightarrow> error + 's) \<Rightarrow> 'a list \<Rightarrow> 's \<Rightarrow> error + 's" where
  "for_each body [] s = Inr s"
| "for_each body (x # xs) s =
     (case body x s of Inl e \<Rightarrow> Inl e | Inr s' \<Rightarrow> for_each body xs s')"

section \<open>Collision tests\<close>

definition isBetween :: "'a::linorder \<Rightarrow> 'a \<Rightarrow> 'a \<Rightarrow> bool" where
  "isBetween coord start end' = (coord \<ge> start \<and> coord \<le> end')"

definition isCollidingInAxis :: "'a::linorder \<Rightarrow> 'a \<Rightarrow> 'a \<Rightarrow> 'a \<Rightarrow> bool" where
  "isCollidingInAxis begin1 end1 begin2 end2 =
     (isBetween begin2 begin1 end1 \<or> isBetween end2 begin1 end1
      \<or> isBetween begin1 begin2 end2 \<or> isBetween end1 begin2 end2)"

definition isColliding ::
  "VisSpan \<Rightarrow> SpanBoundingBox \<Rightarrow> VisSpan \<Rightarrow> SpanBoundingBox \<Rightarrow> bool" where
  "isColliding span1 bbox1 span2 bbox2 =
     (let is_time_colliding =
            isCollidingInAxis (startTime span1) (endTime span1) (startTime span2) (endTime span2)
      in if \<not> is_time_colliding then False
         else isCollidingInAxis (height_level span1) (height_level span1 + height bbox1)
                (height_level span2) (height_level span2 + height bbox2))"

section \<open>The layout: arrangeSpans and arrangeSpan\<close>

text \<open>
  The inner \<^verbatim>\<open>for (let j = 0; j < i; j++)\<close> with its \<^verbatim>\<open>break\<close>: is the current span
  colliding with one of the siblings before it? \<open>prev\<close> holds \<^verbatim>\<open>spans[j]\<close> and
  \<^verbatim>\<open>span_bounding_boxes[j]\<close> for \<open>j < i\<close>, in order.
\<close>

definition is_colliding_with_earlier ::
  "(VisSpan \<times> SpanBoundingBox) list \<Rightarrow> VisSpan \<Rightarrow> SpanBoundingBox \<Rightarrow> bool" where
  "is_colliding_with_earlier prev cur_span cur_span_bbox =
     list_ex (\<lambda>(span_j, bbox_j). isColliding cur_span cur_span_bbox span_j bbox_j) prev"

text \<open>The highest row boundary \<^verbatim>\<open>height_level + height\<close> among the earlier siblings.\<close>

fun top_of :: "(VisSpan \<times> SpanBoundingBox) list \<Rightarrow> nat" where
  "top_of [] = 0"
| "top_of ((s, b) # ps) = max (height_level s + height b) (top_of ps)"

text \<open>
  The \<^verbatim>\<open>while (true)\<close> loop of \<^verbatim>\<open>arrangeSpans\<close> for one sibling: as long as the span
  collides with an earlier sibling, \<^verbatim>\<open>cur_span.height_level += 1\<close>.
\<close>

function bump_until_free ::
  "(VisSpan \<times> SpanBoundingBox) list \<Rightarrow> VisSpan \<Rightarrow> SpanBoundingBox \<Rightarrow> VisSpan" where
  "bump_until_free prev cur_span cur_span_bbox =
     (if is_colliding_with_earlier prev cur_span cur_span_bbox
      then bump_until_free prev
             (set_height_level cur_span (height_level cur_span + 1)) cur_span_bbox
      else cur_span)"
  by pat_completeness auto
termination
proof (relation "measure (\<lambda>(prev, cur, bb). Suc (top_of prev) - height_level cur)")
  show "wf (measure (\<lambda>(prev, cur, bb). Suc (top_of prev) - height_level cur))"
    by simp
next
  fix prev cur_span cur_span_bbox
  assume "is_colliding_with_earlier prev cur_span cur_span_bbox"
  then obtain s b where sb: "(s, b) \<in> set prev"
    and c: "isColliding cur_span cur_span_bbox s b"
    by (auto simp: is_colliding_with_earlier_def list_ex_iff)
  have "height_level s + height b \<le> top_of prev"
    using sb by (induction prev) auto
  moreover from c have "height_level cur_span \<le> height_level s + height b"
    by (auto simp: isColliding_def isCollidingInAxis_def isBetween_def split: if_splits)
  ultimately have "height_level cur_span \<le> top_of prev"
    by linarith
  moreover have "height_level (set_height_level cur_span (height_level cur_span + 1))
                 = height_level cur_span + 1"
    by (cases cur_span) simp
  ultimately show
    "((prev, set_height_level cur_span (height_level cur_span + 1), cur_span_bbox),
      (prev, cur_span, cur_span_bbox))
     \<in> measure (\<lambda>(prev, cur, bb). Suc (top_of prev) - height_level cur)"
    by simp
qed

text \<open>
  The outer \<^verbatim>\<open>for (let i = 0; i < spans.length; i++)\<close>: \<open>done\<close> are the siblings
  already placed, the second list the siblings still to place, each with its box.
\<close>

fun place_siblings ::
  "(VisSpan \<times> SpanBoundingBox) list \<Rightarrow> (VisSpan \<times> SpanBoundingBox) list
   \<Rightarrow> (VisSpan \<times> SpanBoundingBox) list" where
  "place_siblings done [] = done"
| "place_siblings done ((cur_span, cur_span_bbox) # rest) =
     place_siblings (done @ [(bump_until_free done cur_span cur_span_bbox, cur_span_bbox)]) rest"

text \<open>One round of the last loop of \<^verbatim>\<open>arrangeSpans\<close>, which grows \<^verbatim>\<open>final_bbox\<close>.\<close>

definition grow_bbox :: "SpanBoundingBox \<Rightarrow> VisSpan \<times> SpanBoundingBox \<Rightarrow> SpanBoundingBox" where
  "grow_bbox final_bbox p =
     (case p of (cur_span, bbox) \<Rightarrow>
        \<lparr> start_time = min (start_time final_bbox) (start_time bbox),
          end_time = max (end_time final_bbox) (end_time bbox),
          height = max (height final_bbox) (height_level cur_span + height bbox) \<rparr>)"

text \<open>
  Steps 2 and 3 of \<^verbatim>\<open>arrangeSpans\<close> on a non-empty list of siblings with their
  boxes. \<^verbatim>\<open>final_bbox\<close> starts as \<^verbatim>\<open>span_bounding_boxes[0]\<close> and the loop runs from
  \<^verbatim>\<open>i = 0\<close>; the first round reads the box it writes to, field by field, which is what
  \<open>grow_bbox\<close> on the first pair computes.
\<close>

definition arrange_boxes ::
  "(VisSpan \<times> SpanBoundingBox) list \<Rightarrow> SpanBoundingBox \<times> VisSpan list" where
  "arrange_boxes span_bounding_boxes =
     (let placed = place_siblings [] span_bounding_boxes;
          final_bbox = foldl grow_bbox (snd (hd placed)) placed
      in (final_bbox, map fst placed))"

function arrangeSpans :: "VisSpan list \<Rightarrow> SpanBoundingBox \<times> VisSpan list"
  and arrangeSpan :: "VisSpan \<Rightarrow> SpanBoundingBox \<times> VisSpan" where
  "arrangeSpans spans =
     (if length spans = 0
      then (\<lparr> start_time = 0, end_time = 0, height = 0 \<rparr>, spans)
      else arrange_boxes (map (\<lambda>sp. case arrangeSpan sp of (b, s) \<Rightarrow> (s, b)) spans))"
| "arrangeSpan sp =
     (if length (children sp) = 0
      then (\<lparr> start_time = startTime sp, end_time = endTime sp, height = 1 \<rparr>, sp)
      else (case arrangeSpans (children sp) of (bbox, cs) \<Rightarrow>
              (\<lparr> start_time = min (startTime sp) (start_time bbox),
                 end_time = max (endTime sp) (end_time bbox),
                 height = height bbox + 1 \<rparr>,
               set_children sp cs)))"
  by pat_completeness auto
termination
proof (relation "measure (\<lambda>x. case x of Inl spans \<Rightarrow> 2 * size_list size spans + 1
                                          | Inr s \<Rightarrow> 2 * size s)")
  show "wf (measure (\<lambda>x. case x of Inl spans \<Rightarrow> 2 * size_list size spans + 1
                                   | Inr s \<Rightarrow> 2 * size s))"
    by simp
next
  fix spans :: "VisSpan list" and x
  assume "x \<in> set spans"
  then have "size x \<le> size_list size spans"
    by (simp add: size_list_estimation')
  then show "(Inr x, Inl spans) \<in> measure (\<lambda>x. case x of
                Inl spans \<Rightarrow> 2 * size_list size spans + 1 | Inr s \<Rightarrow> 2 * size s)"
    by simp
next
  fix sp :: VisSpan
  have "size sp = Suc (size_list size (children sp))"
    by (cases sp) simp
  then show "(Inl (children sp), Inr sp) \<in> measure (\<lambda>x. case x of
                Inl spans \<Rightarrow> 2 * size_list size spans + 1 | Inr s \<Rightarrow> 2 * size s)"
    by simp
qed

text \<open>
  The equations of the three loops are unconditional equations of a function in terms of
  itself, so they are not simplification rules.
\<close>

declare bump_until_free.simps [simp del] arrangeSpans.simps [simp del]
  arrangeSpan.simps [simp del]

section \<open>What the renderer draws\<close>

text \<open>
  \<^verbatim>\<open>DrawSpan\<close> paints a span at row \<^verbatim>\<open>curHeightLevel + span.height_level\<close> and its
  children with \<^verbatim>\<open>curHeightLevel + span.height_level + 1\<close>. The model returns the
  painted bars in painting order; \<open>drawn_depth\<close> counts the ancestors of the span, which
  the source does not store.
\<close>

record DrawnSpan =
  drawn_span :: VisSpan
  drawn_depth :: nat
  drawn_row :: nat

fun DrawSpan :: "nat \<Rightarrow> nat \<Rightarrow> VisSpan \<Rightarrow> DrawnSpan list" where
  "DrawSpan depth curHeightLevel (VisSpan i n s e p cs ev r a l) =
     \<lparr> drawn_span = VisSpan i n s e p cs ev r a l, drawn_depth = depth,
       drawn_row = curHeightLevel + l \<rparr>
     # concat (map (DrawSpan (depth + 1) (curHeightLevel + l + 1)) cs)"

text \<open>\<^verbatim>\<open>DrawNodeSpans\<close>: every top-level span of a lane starts at row 0.\<close>

definition DrawNodeSpans :: "VisSpan list \<Rightarrow> DrawnSpan list" where
  "DrawNodeSpans lane_spans = concat (map (DrawSpan 0 0) lane_spans)"

section \<open>Spans of a time range\<close>

record AllSpans =
  all_spans :: "VisSpan list"

definition getSpansForTimeRange :: "AllSpans \<Rightarrow> rat \<Rightarrow> rat \<Rightarrow> VisSpan list" where
  "getSpansForTimeRange this startTime' endTime' =
     filter (\<lambda>sp. isCollidingInAxis (startTime sp) (endTime sp) startTime' endTime')
       (all_spans this)"

section \<open>Lanes: getNodeSpans\<close>

definition service_name_of :: "VisSpan \<Rightarrow> string" where
  "service_name_of sp =
     (case find (\<lambda>kv. key kv = ''service.name'') (resource_attributes (resource sp)) of
        Some maybe_service_name \<Rightarrow> stringValue (kv_value maybe_service_name)
      | None \<Rightarrow> ''service.name missing'')"

text \<open>
  \<^verbatim>\<open>spans_by_node_name\<close> is a dictionary that is read back in insertion order: an
  association list. \<^verbatim>\<open>nodes_by_name\<close> has the same keys in the same order, each with
  the node \<^verbatim>\<open>{name: service_name, attributes: {}}\<close>. \<open>add_span\<close> is the
  \<^verbatim>\<open>push\<close> to the list stored for the name, or the new entry \<^verbatim>\<open>[span]\<close>.
\<close>

fun add_span :: "string \<Rightarrow> VisSpan \<Rightarrow> (string \<times> VisSpan list) list
                 \<Rightarrow> (string \<times> VisSpan list) list" where
  "add_span service_name sp [] = [(service_name, [sp])]"
| "add_span service_name sp ((k, l) # rest) =
     (if k = service_name then (k, l @ [sp]) # rest
      else (k, l) # add_span service_name sp rest)"

text \<open>
  One round of the loop over the top-level spans. For a service name that is not stored
  but inherited, \<^verbatim>\<open>service_name in nodes_by_name\<close> and
  \<^verbatim>\<open>service_name in spans_by_node_name\<close> are both true: no node is made, and
  \<^verbatim>\<open>spans_by_node_name[service_name].push(span)\<close> throws.
\<close>

definition group_span ::
  "VisSpan \<Rightarrow> (string \<times> VisSpan list) list \<Rightarrow> error + (string \<times> VisSpan list) list" where
  "group_span sp by_name =
     (let service_name = service_name_of sp
      in if map_of by_name service_name = None \<and> service_name \<in> set Object_prototype_keys
         then Inl TypeError
         else Inr (add_span service_name sp by_name))"

definition spans_by_node_name ::
  "VisSpan list \<Rightarrow> error + (string \<times> VisSpan list) list" where
  "spans_by_node_name top_level_spans = for_each group_span top_level_spans []"

text \<open>
  \<^verbatim>\<open>Object.values\<close> lists the values under the keys that are array indices first
  (\<^verbatim>\<open>"0"\<close>, or digits that do not start with \<^verbatim>\<open>0\<close>, below 4294967295), by
  ascending index, and then the values under the other keys in the order in which the
  keys were stored.
\<close>

definition index_value :: "string \<Rightarrow> nat" where
  "index_value k = foldl (\<lambda>n c. 10 * n + (of_char c - 48)) 0 k"

definition is_array_index :: "string \<Rightarrow> bool" where
  "is_array_index k =
     (k \<noteq> [] \<and> list_all (\<lambda>c. c \<in> set ''0123456789'') k
      \<and> (k = ''0'' \<or> hd k \<noteq> CHR ''0'') \<and> index_value k < 4294967295)"

definition Object_values :: "(string \<times> 'a) list \<Rightarrow> (string \<times> 'a) list" where
  "Object_values dict =
     sort_key (\<lambda>entry. index_value (fst entry)) (filter (\<lambda>entry. is_array_index (fst entry)) dict)
     @ filter (\<lambda>entry. \<not> is_array_index (fst entry)) dict"

text \<open>
  \<^verbatim>\<open>Array.prototype.sort\<close> is stable; with a comparator it is the stable insertion
  sort below. \<^verbatim>\<open>localeCompare\<close> is the collation of the host, a parameter here.
\<close>

fun insert_sorted :: "('a \<Rightarrow> 'a \<Rightarrow> int) \<Rightarrow> 'a \<Rightarrow> 'a list \<Rightarrow> 'a list" where
  "insert_sorted cmp x [] = [x]"
| "insert_sorted cmp x (y # ys) =
     (if cmp x y \<le> 0 then x # y # ys else y # insert_sorted cmp x ys)"

definition sort_with :: "('a \<Rightarrow> 'a \<Rightarrow> int) \<Rightarrow> 'a list \<Rightarrow> 'a list" where
  "sort_with cmp xs = foldr (insert_sorted cmp) xs []"

definition getNodeSpans ::
  "(string \<Rightarrow> string \<Rightarrow> int) \<Rightarrow> VisSpan list \<Rightarrow> error + NodeSpans list" where
  "getNodeSpans localeCompare top_level_spans =
     (case spans_by_node_name top_level_spans of
        Inl e \<Rightarrow> Inl e
      | Inr by_name \<Rightarrow>
          let all_nodes = sort_with (\<lambda>a b. localeCompare (fst a) (fst b))
                            (Object_values by_name)
          in Inr (map (\<lambda>(node_name', node_spans).
                         let cur_spans = sort_key startTime node_spans;
                             (bbox, arranged) = arrangeSpans cur_spans
                         in \<lparr> ns_node = \<lparr> node_name = node_name', node_attributes = [] \<rparr>,
                              ns_spans = arranged, ns_bbox = bbox \<rparr>)
                    all_nodes))"

section \<open>The timeline: screen map and wheel zoom\<close>

datatype TimelineAction = None' | DraggingEdge | DraggingMiddle

record TimelineState =
  startTime_tl :: rat
  endTime_tl :: rat
  selectedStart :: rat
  selectedEnd :: rat
  minStartTime :: rat
  maxEndTime :: rat
  action :: TimelineAction
  deltaX :: rat
  notDraggedEdgeTime :: rat

text \<open>
  Division by zero gives \<^verbatim>\<open>NaN\<close> or an infinity in JavaScript and 0 in HOL: the two
  maps and the wheel handler below are the source's only where
  \<^verbatim>\<open>windowWidth\<close> and \<^verbatim>\<open>endTime - startTime\<close> are not 0, and every statement about
  them assumes so.
\<close>

definition screenToTime :: "rat \<Rightarrow> TimelineState \<Rightarrow> rat \<Rightarrow> rat" where
  "screenToTime screenX timeline windowWidth =
     startTime_tl timeline + screenX / windowWidth * (endTime_tl timeline - startTime_tl timeline)"

definition timeToScreen :: "rat \<Rightarrow> TimelineState \<Rightarrow> rat \<Rightarrow> rat" where
  "timeToScreen time timeline windowWidth =
     (time - startTime_tl timeline) / (endTime_tl timeline - startTime_tl timeline) * windowWidth"



section \<open>The span forest: extractVisSpans\<close>

text \<open>
  The trace export as \<^verbatim>\<open>otel.ts\<close> declares it; attribute lists are the
  \<^verbatim>\<open>KeyValue[]\<close> the visualizer reads.
\<close>

record Link =
  link_traceId :: string
  link_spanId :: string
  link_attributes :: "KeyValue list"

record Span =
  traceId :: string
  span_spanId :: string
  span_parentSpanId :: string
  span_name :: string
  startTimeUnixNano :: rat
  endTimeUnixNano :: rat
  span_attributes :: "KeyValue list"
  span_events :: "Event list"
  links :: "Link list"

record ScopeSpans =
  ss_spans :: "Span list"

record ResourceSpans =
  rs_resource :: Resource
  scopeSpans :: "ScopeSpans list"

record ExportTraceServiceRequest =
  resourceSpans :: "ResourceSpans list"

text \<open>The four nested loops that push one \<^verbatim>\<open>VisSpan\<close> object per raw span.\<close>

definition collect_spans :: "ExportTraceServiceRequest list \<Rightarrow> VisSpan list" where
  "collect_spans otel_requests =
     concat (map (\<lambda>request.
       concat (map (\<lambda>resource_spans.
         concat (map (\<lambda>scope_spans.
           map (\<lambda>sp. VisSpan (span_spanId sp) (span_name sp) (startTimeUnixNano sp)
                       (endTimeUnixNano sp) (span_parentSpanId sp) [] (span_events sp)
                       (rs_resource resource_spans) (span_attributes sp) 0)
             (ss_spans scope_spans))
           (scopeSpans resource_spans)))
         (resourceSpans request)))
       otel_requests)"

text \<open>
  From here on the span objects are shared: the dictionary and the \<^verbatim>\<open>children\<close>
  arrays hold references to the objects of \<^verbatim>\<open>spans\<close>. A reference is the position
  of the object in \<^verbatim>\<open>spans\<close>. \<^verbatim>\<open>spanIdToSpan\<close> is a map from identifiers to
  references, a later span with the same identifier replacing an earlier one. For
  the identifier \<^verbatim>\<open>__proto__\<close> the assignment \<^verbatim>\<open>spanIdToSpan[span.spanId] = span\<close>
  stores no key: it makes the span the prototype of the dictionary, and reading
  \<^verbatim>\<open>spanIdToSpan["__proto__"]\<close> returns that span, so the map answers for this
  identifier as for any other.
\<close>

definition spanIdToSpan :: "VisSpan list \<Rightarrow> (string \<rightharpoonup> nat)" where
  "spanIdToSpan spans =
     fold (\<lambda>i m. m(spanId (spans ! i) \<mapsto> i)) [0..<length spans] Map.empty"

text \<open>
  The keys that \<^verbatim>\<open>in\<close> finds in \<^verbatim>\<open>spanIdToSpan\<close> besides the identifiers of the
  spans: the keys of \<^verbatim>\<open>Object.prototype\<close> and, once a span with the identifier
  \<^verbatim>\<open>__proto__\<close> is the prototype of the dictionary, the fields of that span.
\<close>

definition inherited_keys :: "VisSpan list \<Rightarrow> string list" where
  "inherited_keys spans =
     Object_prototype_keys
     @ (if ''__proto__'' \<in> set (map spanId spans) then VisSpan_keys else [])"

text \<open>
  One round of the second loop:
  \<^verbatim>\<open>if (span.parentSpanId in spanIdToSpan) spanIdToSpan[span.parentSpanId].children.push(span)\<close>.
  The \<^verbatim>\<open>children\<close> arrays are kept apart from the objects, one list of references per
  object. Where the parent identifier is the identifier of a span, the span is pushed
  to the children of that span; where it is only an inherited key, what is read has no
  \<^verbatim>\<open>children\<close> and the \<^verbatim>\<open>push\<close> throws; otherwise nothing is done.
\<close>

definition push_child :: "VisSpan list \<Rightarrow> nat \<Rightarrow> nat list list \<Rightarrow> error + nat list list" where
  "push_child spans i cs =
     (case spanIdToSpan spans (parentSpanId (spans ! i)) of
        Some parent \<Rightarrow> Inr (cs[parent := cs ! parent @ [i]])
      | None \<Rightarrow> if parentSpanId (spans ! i) \<in> set (inherited_keys spans)
                then Inl TypeError else Inr cs)"

definition push_children :: "VisSpan list \<Rightarrow> error + nat list list" where
  "push_children spans =
     for_each (push_child spans) [0..<length spans] (replicate (length spans) [])"

record SpanForest =
  forest_spans :: "VisSpan list"
  forest_children :: "nat list list"
  top_level_spans :: "nat list"

definition extractVisSpans :: "ExportTraceServiceRequest list \<Rightarrow> error + SpanForest" where
  "extractVisSpans otel_requests =
     (let spans = collect_spans otel_requests
      in case push_children spans of
           Inl e \<Rightarrow> Inl e
         | Inr pushed \<Rightarrow>
             let sorted_children = map (sort_key (\<lambda>j. startTime (spans ! j))) pushed;
                 top_level = filter (\<lambda>i. parentSpanId (spans ! i) = []) [0..<length spans]
             in Inr \<lparr> forest_spans = spans, forest_children = sorted_children,
                      top_level_spans = top_level \<rparr>)"




section \<open>Vocabulary of the properties\<close>

text \<open>
  A span object after some rounds of \<^verbatim>\<open>height_level += 1\<close>: the same object, with a
  level that is not lower.
\<close>

definition bumped :: "VisSpan \<Rightarrow> VisSpan \<Rightarrow> bool" where
  "bumped s s' = (\<exists>l. height_level s \<le> l \<and> s' = set_height_level s l)"

text \<open>
  The span tree with every \<^verbatim>\<open>height_level\<close> set to 0: two trees with the same
  image agree on every field but \<^verbatim>\<open>height_level\<close>, the children and their order
  included.
\<close>

fun clear_levels :: "VisSpan \<Rightarrow> VisSpan" where
  "clear_levels (VisSpan i n s e p cs ev r a l) = VisSpan i n s e p (map clear_levels cs) ev r a 0"

text \<open>The levels of a span and of its descendants, parents before children.\<close>

fun all_levels :: "VisSpan \<Rightarrow> nat list" where
  "all_levels (VisSpan i n s e p cs ev r a l) = l # concat (map all_levels cs)"

text \<open>
  The level of the first sibling of a group, and the levels of the first siblings of
  all the groups below a span, or in a list of top-level spans.
\<close>

definition first_level :: "VisSpan list \<Rightarrow> nat list" where
  "first_level siblings = (case siblings of [] \<Rightarrow> [] | first # _ \<Rightarrow> [height_level first])"

fun first_child_levels :: "VisSpan \<Rightarrow> nat list" where
  "first_child_levels (VisSpan i n s e p cs ev r a l) =
     first_level cs @ concat (map first_child_levels cs)"

definition first_sibling_levels :: "VisSpan list \<Rightarrow> nat list" where
  "first_sibling_levels spans = first_level spans @ concat (map first_child_levels spans)"

text \<open>
  What the layout may do to a span tree: nothing but raise levels, and not the level of
  the first child of any span.
\<close>

definition only_raised :: "VisSpan \<Rightarrow> VisSpan \<Rightarrow> bool" where
  "only_raised s s' = (clear_levels s' = clear_levels s
      \<and> list_all2 (\<le>) (all_levels s) (all_levels s')
      \<and> first_child_levels s' = first_child_levels s)"

text \<open>A span and all its descendants.\<close>

fun subtree_spans :: "VisSpan \<Rightarrow> VisSpan list" where
  "subtree_spans (VisSpan i n s e p cs ev r a l) =
     VisSpan i n s e p cs ev r a l # concat (map subtree_spans cs)"

text \<open>
  The chain of parents that starts at the identifier \<open>parent\<close> ends, within \<open>k\<close>
  steps through the dictionary, at a span whose parent identifier is empty; and the
  number of steps the chain of a span takes.
\<close>

fun reaches_root :: "VisSpan list \<Rightarrow> nat \<Rightarrow> string \<Rightarrow> bool" where
  "reaches_root spans 0 parent = (parent = [])"
| "reaches_root spans (Suc k) parent =
     (parent = [] \<or> (case spanIdToSpan spans parent of
                        None \<Rightarrow> False
                      | Some p \<Rightarrow> reaches_root spans k (parentSpanId (spans ! p))))"

definition depth :: "VisSpan list \<Rightarrow> nat \<Rightarrow> nat" where
  "depth spans i = (LEAST k. reaches_root spans k (parentSpanId (spans ! i)))"


text \<open>
  Some span names a parent that no span has as its identifier and that the dictionary
  inherits: the case in which the second loop of \<^verbatim>\<open>extractVisSpans\<close> throws.
\<close>

definition names_inherited_key :: "VisSpan list \<Rightarrow> bool" where
  "names_inherited_key spans =
     list_ex (\<lambda>sp. parentSpanId sp \<notin> set (map spanId spans)
                   \<and> parentSpanId sp \<in> set (inherited_keys spans)) spans"

text \<open>
  The rows a group of siblings takes, counted from the row of their parent's children,
  and the rows a span takes with its subtree.
\<close>

fun rows_used :: "VisSpan list \<Rightarrow> nat" and rel_height :: "VisSpan \<Rightarrow> nat" where
  "rows_used [] = 0"
| "rows_used (c # cs) = max (height_level c + rel_height c) (rows_used cs)"
| "rel_height (VisSpan i n s e p cs ev r a l) = 1 + rows_used cs"

text \<open>
  Every span ends no earlier than it starts, and lies within the interval of its parent.
\<close>

fun nested :: "VisSpan \<Rightarrow> bool" where
  "nested (VisSpan i n s e p cs ev r a l) =
     (s \<le> e \<and> list_all (\<lambda>c. s \<le> startTime c \<and> endTime c \<le> e \<and> nested c) cs)"

text \<open>
  Two siblings, the second placed after the first, that do not collide: their time
  intervals do not collide, or the closed intervals of their rows do not; a span tree in
  which this holds for every two siblings; and two drawn bars that are not on the same
  row if their time intervals collide.
\<close>

definition clash_free :: "VisSpan \<Rightarrow> VisSpan \<Rightarrow> bool" where
  "clash_free t u =
     (\<not> (isCollidingInAxis (startTime u) (endTime u) (startTime t) (endTime t)
         \<and> isCollidingInAxis (height_level u) (height_level u + rel_height u)
               (height_level t) (height_level t + rel_height t)))"

fun well_laid :: "VisSpan \<Rightarrow> bool" where
  "well_laid (VisSpan i n s e p cs ev r a l) = (sorted_wrt clash_free cs \<and> list_all well_laid cs)"

definition no_clash :: "DrawnSpan \<Rightarrow> DrawnSpan \<Rightarrow> bool" where
  "no_clash d1 d2 =
     (isCollidingInAxis (startTime (drawn_span d1)) (endTime (drawn_span d1))
        (startTime (drawn_span d2)) (endTime (drawn_span d2))
      \<longrightarrow> drawn_row d1 \<noteq> drawn_row d2)"

section \<open>Concrete inputs\<close>

text \<open>The state \<^verbatim>\<open>new TimelineState()\<close> constructs.\<close>

definition TimelineState_new :: TimelineState where
  "TimelineState_new = \<lparr> startTime_tl = 1000000000, endTime_tl = 3000000000,
     selectedStart = 1500000000, selectedEnd = 2500000000, minStartTime = 0,
     maxEndTime = 4000000000, action = None', deltaX = 0, notDraggedEdgeTime = 0 \<rparr>"

text \<open>
  A top-level span over \<open>[0, 10]\<close> whose child runs over \<open>[50, 60]\<close>, and a
  top-level leaf over \<open>[40, 55]\<close>.
\<close>

definition far_root :: VisSpan where
  "far_root = VisSpan ''r'' ''root'' 0 10 []
      [VisSpan ''c'' ''child'' 50 60 ''r'' [] [] \<lparr> resource_attributes = [] \<rparr> [] 0]
      [] \<lparr> resource_attributes = [] \<rparr> [] 0"

definition near_root :: VisSpan where
  "near_root = VisSpan ''n'' ''near'' 40 55 [] [] [] \<lparr> resource_attributes = [] \<rparr> [] 0"

text \<open>
  Two overlapping top-level spans, the first with two overlapping children; two
  overlapping top-level leaves; and two top-level spans that do not overlap, with
  children that do: the child \<^verbatim>\<open>A1\<close> outlives its parent.
\<close>

definition overlap_forest :: "VisSpan list" where
  "overlap_forest =
     [VisSpan ''A'' ''a'' 0 100 []
        [VisSpan ''A1'' ''a1'' 10 20 ''A'' [] [] \<lparr> resource_attributes = [] \<rparr> [] 0,
         VisSpan ''A2'' ''a2'' 15 30 ''A'' [] [] \<lparr> resource_attributes = [] \<rparr> [] 0]
        [] \<lparr> resource_attributes = [] \<rparr> [] 0,
      VisSpan ''B'' ''b'' 50 150 [] [] [] \<lparr> resource_attributes = [] \<rparr> [] 0]"


definition sticking_out_forest :: "VisSpan list" where
  "sticking_out_forest =
     [VisSpan ''A'' ''a'' 0 10 []
        [VisSpan ''A1'' ''a1'' 0 100 ''A'' [] [] \<lparr> resource_attributes = [] \<rparr> [] 0]
        [] \<lparr> resource_attributes = [] \<rparr> [] 0,
      VisSpan ''B'' ''b'' 50 60 []
        [VisSpan ''B1'' ''b1'' 50 60 ''B'' [] [] \<lparr> resource_attributes = [] \<rparr> [] 0]
        [] \<lparr> resource_attributes = [] \<rparr> [] 0]"

text \<open>
  Trace exports of one resource and one scope. In the first, the span \<^verbatim>\<open>d\<close> names a
  parent that is not in the export; in the second, \<^verbatim>\<open>b\<close> does, and \<^verbatim>\<open>c\<close> is a
  child of \<^verbatim>\<open>b\<close>; in the third, every span is below the root \<^verbatim>\<open>a\<close>.
\<close>

definition raw_span :: "string \<Rightarrow> string \<Rightarrow> rat \<Rightarrow> rat \<Rightarrow> Span" where
  "raw_span ident parent s e =
     \<lparr> traceId = ''t'', span_spanId = ident, span_parentSpanId = parent, span_name = ident,
       startTimeUnixNano = s, endTimeUnixNano = e, span_attributes = [], span_events = [],
       links = [] \<rparr>"

definition one_scope :: "Span list \<Rightarrow> ExportTraceServiceRequest list" where
  "one_scope raw_spans =
     [\<lparr> resourceSpans =
          [\<lparr> rs_resource = \<lparr> resource_attributes = [] \<rparr>,
             scopeSpans = [\<lparr> ss_spans = raw_spans \<rparr>] \<rparr>] \<rparr>]"

definition orphan_export :: "ExportTraceServiceRequest list" where
  "orphan_export = one_scope [raw_span ''a'' [] 0 100, raw_span ''d'' ''zz'' 10 20]"





text \<open>
  A trace export in which the span \<^verbatim>\<open>d\<close> names the parent \<^verbatim>\<open>constructor\<close>, which
  no span has as its identifier and every object inherits as a key.
\<close>

definition inherited_key_export :: "ExportTraceServiceRequest list" where
  "inherited_key_export =
     one_scope [raw_span ''a'' [] 0 100, raw_span ''d'' ''constructor'' 10 20]"

section \<open>Properties of the collision test\<close>

lemma isCollidingInAxis_closed_intervals:
  fixes b1 :: "'a::linorder"
  assumes "b1 \<le> e1" and "b2 \<le> e2"
  shows "isCollidingInAxis b1 e1 b2 e2 \<longleftrightarrow> {b1..e1} \<inter> {b2..e2} \<noteq> {}"
proof -
  have "isCollidingInAxis b1 e1 b2 e2 \<longleftrightarrow> b1 \<le> e2 \<and> b2 \<le> e1"
    using assms unfolding isCollidingInAxis_def isBetween_def by (meson le_cases order_trans)
  also have "\<dots> \<longleftrightarrow> {b1..e1} \<inter> {b2..e2} \<noteq> {}"
    using assms by auto
  finally show ?thesis .
qed


section \<open>Properties of the loops of arrangeSpans\<close>

lemma set_height_level_twice [simp]:
  "set_height_level (set_height_level s l) l' = set_height_level s l'"
  by (cases s) simp

lemma height_level_set [simp]: "height_level (set_height_level s l) = l"
  by (cases s) simp

lemma set_height_level_same [simp]: "set_height_level s (height_level s) = s"
  by (cases s) simp

lemma height_level_set_children [simp]: "height_level (set_children s cs) = height_level s"
  by (cases s) simp

lemma bumped_refl: "bumped s s"
  unfolding bumped_def by (rule exI [of _ "height_level s"]) simp

lemma bump_until_free_bumped: "bumped s (bump_until_free prev s b)"
proof (induction prev s b rule: bump_until_free.induct)
  case (1 prev cur_span cur_span_bbox)
  show ?case
  proof (cases "is_colliding_with_earlier prev cur_span cur_span_bbox")
    case True
    with 1 have "bumped (set_height_level cur_span (height_level cur_span + 1))
                   (bump_until_free prev cur_span cur_span_bbox)"
      by (simp add: bump_until_free.simps [of prev cur_span])
    then obtain l where "height_level cur_span + 1 \<le> l"
      and "bump_until_free prev cur_span cur_span_bbox = set_height_level cur_span l"
      unfolding bumped_def by auto
    then have "height_level cur_span \<le> l
               \<and> bump_until_free prev cur_span cur_span_bbox = set_height_level cur_span l"
      by simp
    then show ?thesis
      unfolding bumped_def by (rule exI)
  next
    case False
    then show ?thesis
      by (simp add: bump_until_free.simps [of prev cur_span] bumped_refl)
  qed
qed

lemma bump_until_free_Nil [simp]: "bump_until_free [] s b = s"
  by (simp add: bump_until_free.simps [of "[]"] is_colliding_with_earlier_def)

lemma bump_until_free_first_free:
  "\<exists>k. bump_until_free prev cur bb = set_height_level cur (height_level cur + k)
       \<and> \<not> is_colliding_with_earlier prev (set_height_level cur (height_level cur + k)) bb
       \<and> (\<forall>j<k. is_colliding_with_earlier prev (set_height_level cur (height_level cur + j)) bb)"
proof (induction prev cur bb rule: bump_until_free.induct)
  case (1 prev cur bb)
  show ?case
  proof (cases "is_colliding_with_earlier prev cur bb")
    case False
    then have "bump_until_free prev cur bb = set_height_level cur (height_level cur + 0)
       \<and> \<not> is_colliding_with_earlier prev (set_height_level cur (height_level cur + 0)) bb
       \<and> (\<forall>j<0. is_colliding_with_earlier prev (set_height_level cur (height_level cur + j)) bb)"
      by (simp add: bump_until_free.simps [of prev cur])
    then show ?thesis by (rule exI)
  next
    case True
    let ?cur' = "set_height_level cur (height_level cur + 1)"
    from 1 [OF True] obtain k where
      k: "bump_until_free prev ?cur' bb = set_height_level ?cur' (height_level ?cur' + k)"
         "\<not> is_colliding_with_earlier prev (set_height_level ?cur' (height_level ?cur' + k)) bb"
         "\<forall>j<k. is_colliding_with_earlier prev
                  (set_height_level ?cur' (height_level ?cur' + j)) bb"
      by blast
    have eq: "bump_until_free prev cur bb = bump_until_free prev ?cur' bb"
      using True by (simp add: bump_until_free.simps [of prev cur])
    have lower: "is_colliding_with_earlier prev (set_height_level cur (height_level cur + j)) bb"
      if "j < Suc k" for j
    proof (cases j)
      case 0
      with True show ?thesis by simp
    next
      case (Suc j')
      with that k(3) have "is_colliding_with_earlier prev
                  (set_height_level ?cur' (height_level ?cur' + j')) bb"
        by simp
      with Suc show ?thesis by simp
    qed
    have "bump_until_free prev cur bb = set_height_level cur (height_level cur + Suc k)
       \<and> \<not> is_colliding_with_earlier prev (set_height_level cur (height_level cur + Suc k)) bb
       \<and> (\<forall>j<Suc k. is_colliding_with_earlier prev
                      (set_height_level cur (height_level cur + j)) bb)"
      using k(1,2) lower by (simp add: eq)
    then show ?thesis by (rule exI)
  qed
qed

lemma place_siblings_shape:
  "\<exists>new. place_siblings done todo = done @ new
         \<and> map snd new = map snd todo
         \<and> list_all2 bumped (map fst todo) (map fst new)"
proof (induction todo arbitrary: "done")
  case Nil
  then show ?case by simp
next
  case (Cons p todo)
  obtain s b where p: "p = (s, b)" by (cases p)
  from Cons [of "done @ [(bump_until_free done s b, b)]"]
  obtain new where
    new: "place_siblings (done @ [(bump_until_free done s b, b)]) todo
          = (done @ [(bump_until_free done s b, b)]) @ new"
      "map snd new = map snd todo" "list_all2 bumped (map fst todo) (map fst new)"
    by blast
  show ?case
    by (rule exI [of _ "(bump_until_free done s b, b) # new"])
       (simp add: p new bump_until_free_bumped)
qed

lemma place_siblings_first:
  "place_siblings [] ((s, b) # todo) = (s, b) # tl (place_siblings [] ((s, b) # todo))"
proof -
  from place_siblings_shape [of "[(s, b)]" todo]
  obtain new where "place_siblings [(s, b)] todo = [(s, b)] @ new" by blast
  then show ?thesis by simp
qed

text \<open>The spans and the box that \<^verbatim>\<open>arrangeSpans\<close> and \<^verbatim>\<open>arrangeSpan\<close> return.\<close>

lemma arrangeSpans_Nil [simp]:
  "arrangeSpans [] = (\<lparr> start_time = 0, end_time = 0, height = 0 \<rparr>, [])"
  by (simp add: arrangeSpans.simps)

lemma arrangeSpans_out:
  assumes "spans \<noteq> []"
  shows "list_all2 bumped (map (\<lambda>sp. snd (arrangeSpan sp)) spans) (snd (arrangeSpans spans))"
    and "hd (snd (arrangeSpans spans)) = snd (arrangeSpan (hd spans))"
proof -
  define ps where "ps = map (\<lambda>sp. case arrangeSpan sp of (b, s) \<Rightarrow> (s, b)) spans"
  have out: "snd (arrangeSpans spans) = map fst (place_siblings [] ps)"
    using assms by (simp add: arrangeSpans.simps [of spans] arrange_boxes_def Let_def ps_def)
  have fst_ps: "map fst ps = map (\<lambda>sp. snd (arrangeSpan sp)) spans"
    by (simp add: ps_def split_beta)
  from place_siblings_shape [of "[]" ps]
  have "list_all2 bumped (map fst ps) (map fst (place_siblings [] ps))"
    by auto
  then show "list_all2 bumped (map (\<lambda>sp. snd (arrangeSpan sp)) spans) (snd (arrangeSpans spans))"
    by (simp add: out fst_ps)
  from assms obtain p rest where ps: "ps = p # rest"
    by (cases spans) (auto simp: ps_def)
  obtain s b where p: "p = (s, b)" by (cases p)
  have "hd (map fst (place_siblings [] ps)) = s"
    using place_siblings_first [of s b rest] unfolding ps p
    by (metis fst_conv list.map_sel(1) list.sel(1) list.simps(3))
  moreover have "s = snd (arrangeSpan (hd spans))"
    using assms ps p by (cases spans) (auto simp: ps_def split: prod.splits)
  ultimately show "hd (snd (arrangeSpans spans)) = snd (arrangeSpan (hd spans))"
    by (simp add: out)
qed

lemma arrangeSpan_out:
  "snd (arrangeSpan sp)
   = (if children sp = [] then sp else set_children sp (snd (arrangeSpans (children sp))))"
  by (simp add: arrangeSpan.simps [of sp] split: prod.splits)

lemma first_level_hd: "xs \<noteq> [] \<Longrightarrow> first_level xs = [height_level (hd xs)]"
  by (cases xs) (simp_all add: first_level_def)

lemma Min_insert_min:
  fixes a :: "'a::linorder"
  assumes "finite S"
  shows "Min (insert (min a b) S) = Min (insert a (insert b S))"
  using assms by (cases "S = {}") (simp_all add: min.assoc)

lemma Max_insert_max:
  fixes a :: "'a::linorder"
  assumes "finite S"
  shows "Max (insert (max a b) S) = Max (insert a (insert b S))"
  using assms by (cases "S = {}") (simp_all add: max.assoc)

lemma foldl_grow_start:
  "start_time (foldl grow_bbox b ps) = Min (insert (start_time b) ((\<lambda>p. start_time (snd p)) ` set ps))"
proof (induction ps arbitrary: b)
  case Nil
  then show ?case by simp
next
  case (Cons p ps)
  have "start_time (grow_bbox b p) = min (start_time b) (start_time (snd p))"
    by (simp add: grow_bbox_def split: prod.splits)
  then show ?case
    by (simp add: Cons Min_insert_min)
qed

lemma foldl_grow_end:
  "end_time (foldl grow_bbox b ps) = Max (insert (end_time b) ((\<lambda>p. end_time (snd p)) ` set ps))"
proof (induction ps arbitrary: b)
  case Nil
  then show ?case by simp
next
  case (Cons p ps)
  have "end_time (grow_bbox b p) = max (end_time b) (end_time (snd p))"
    by (simp add: grow_bbox_def split: prod.splits)
  then show ?case
    by (simp add: Cons Max_insert_max)
qed

lemma foldl_grow_height:
  "height (foldl grow_bbox b ps)
   = Max (insert (height b) ((\<lambda>p. height_level (fst p) + height (snd p)) ` set ps))"
proof (induction ps arbitrary: b)
  case Nil
  then show ?case by simp
next
  case (Cons p ps)
  have "height (grow_bbox b p) = max (height b) (height_level (fst p) + height (snd p))"
    by (simp add: grow_bbox_def split: prod.splits)
  then show ?case
    by (simp add: Cons Max_insert_max)
qed

lemma arrangeSpans_box:
  assumes "spans \<noteq> []"
  shows "start_time (fst (arrangeSpans spans))
           = Min ((\<lambda>sp. start_time (fst (arrangeSpan sp))) ` set spans)"
    and "end_time (fst (arrangeSpans spans))
           = Max ((\<lambda>sp. end_time (fst (arrangeSpan sp))) ` set spans)"
    and "height (fst (arrangeSpans spans))
           = Max (set (map2 (\<lambda>s' s. height_level s' + height (fst (arrangeSpan s)))
                        (snd (arrangeSpans spans)) spans))"
proof -
  define ps where "ps = map (\<lambda>sp. case arrangeSpan sp of (b, s) \<Rightarrow> (s, b)) spans"
  define placed where "placed = place_siblings [] ps"
  have res: "arrangeSpans spans = (foldl grow_bbox (snd (hd placed)) placed, map fst placed)"
    using assms by (simp add: arrangeSpans.simps [of spans] arrange_boxes_def Let_def ps_def placed_def)
  have snd_ps: "map snd ps = map (\<lambda>sp. fst (arrangeSpan sp)) spans"
    by (simp add: ps_def split_beta)
  from place_siblings_shape [of "[]" ps]
  have snd_placed: "map snd placed = map (\<lambda>sp. fst (arrangeSpan sp)) spans"
    by (auto simp: placed_def snd_ps)
  then have len: "length placed = length spans"
    by (metis length_map)
  with assms have ne: "placed \<noteq> []" by auto
  have boxes: "snd ` set placed = (\<lambda>sp. fst (arrangeSpan sp)) ` set spans"
    using snd_placed by (metis image_set)
  have hd_in: "hd placed \<in> set placed"
    using ne by simp
  have "start_time (fst (arrangeSpans spans))
        = Min (insert (start_time (snd (hd placed))) ((\<lambda>p. start_time (snd p)) ` set placed))"
    by (simp add: res foldl_grow_start)
  also have "insert (start_time (snd (hd placed))) ((\<lambda>p. start_time (snd p)) ` set placed)
             = start_time ` snd ` set placed"
    using hd_in by (auto simp: image_iff)
  finally show "start_time (fst (arrangeSpans spans))
                = Min ((\<lambda>sp. start_time (fst (arrangeSpan sp))) ` set spans)"
    by (simp add: boxes image_image)
  have "end_time (fst (arrangeSpans spans))
        = Max (insert (end_time (snd (hd placed))) ((\<lambda>p. end_time (snd p)) ` set placed))"
    by (simp add: res foldl_grow_end)
  also have "insert (end_time (snd (hd placed))) ((\<lambda>p. end_time (snd p)) ` set placed)
             = end_time ` snd ` set placed"
    using hd_in by (auto simp: image_iff)
  finally show "end_time (fst (arrangeSpans spans))
                = Max ((\<lambda>sp. end_time (fst (arrangeSpan sp))) ` set spans)"
    by (simp add: boxes image_image)
  let ?H = "(\<lambda>p. height_level (fst p) + height (snd p)) ` set placed"
  have "height (fst (arrangeSpans spans)) = Max (insert (height (snd (hd placed))) ?H)"
    by (simp add: res foldl_grow_height)
  also have "\<dots> = max (height (snd (hd placed))) (Max ?H)"
    using ne by (simp add: Max_insert)
  also have "\<dots> = Max ?H"
  proof -
    have "height_level (fst (hd placed)) + height (snd (hd placed)) \<le> Max ?H"
      using hd_in by (intro Max_ge) auto
    then show ?thesis by simp
  qed
  also have "?H = set (map2 (\<lambda>s' s. height_level s' + height (fst (arrangeSpan s)))
                        (snd (arrangeSpans spans)) spans)"
  proof -
    have "placed = zip (map fst placed) (map snd placed)"
      by (simp add: zip_map_fst_snd)
    then have "placed = zip (snd (arrangeSpans spans)) (map (\<lambda>sp. fst (arrangeSpan sp)) spans)"
      by (simp add: res snd_placed)
    then have "map (\<lambda>p. height_level (fst p) + height (snd p)) placed
               = map2 (\<lambda>s' s. height_level s' + height (fst (arrangeSpan s)))
                   (snd (arrangeSpans spans)) spans"
      by (simp add: zip_map2 split_beta)
    then show ?thesis by (metis image_set)
  qed
  finally show "height (fst (arrangeSpans spans))
           = Max (set (map2 (\<lambda>s' s. height_level s' + height (fst (arrangeSpan s)))
                        (snd (arrangeSpans spans)) spans))" .
qed

lemma arrangeSpan_box:
  "fst (arrangeSpan sp)
   = (if children sp = []
      then \<lparr> start_time = startTime sp, end_time = endTime sp, height = 1 \<rparr>
      else \<lparr> start_time = min (startTime sp) (start_time (fst (arrangeSpans (children sp)))),
             end_time = max (endTime sp) (end_time (fst (arrangeSpans (children sp)))),
             height = height (fst (arrangeSpans (children sp))) + 1 \<rparr>)"
  by (simp add: arrangeSpan.simps [of sp] split: prod.splits)

section \<open>The layout only raises levels\<close>

lemma only_raised_refl: "only_raised s s"
  by (simp add: only_raised_def list_all2_refl)

lemma only_raised_trans: "only_raised a b \<Longrightarrow> only_raised b c \<Longrightarrow> only_raised a c"
  unfolding only_raised_def
  by (auto elim: list_all2_trans [rotated])

lemma bumped_only_raised: "bumped s s' \<Longrightarrow> only_raised s s'"
  unfolding bumped_def only_raised_def
  by (cases s) (auto simp: list_all2_refl)

lemma list_all2_concat_map:
  "list_all2 (\<lambda>x y. list_all2 P (f x) (f y)) xs ys
   \<Longrightarrow> list_all2 P (concat (map f xs)) (concat (map f ys))"
  by (induction rule: list_all2_induct) (auto intro: list_all2_appendI)

lemma list_all2_map_eq:
  "list_all2 (\<lambda>x y. f y = f x) xs ys \<Longrightarrow> map f ys = map f xs"
  by (induction rule: list_all2_induct) auto

lemma set_children_only_raised:
  assumes "list_all2 only_raised (children s) cs'"
    and "first_level cs' = first_level (children s)"
  shows "only_raised s (set_children s cs')"
proof -
  have 1: "map clear_levels cs' = map clear_levels (children s)"
    using assms(1) by (intro list_all2_map_eq) (auto simp: only_raised_def elim: list_all2_mono)
  have 2: "list_all2 (\<le>) (concat (map all_levels (children s))) (concat (map all_levels cs'))"
    using assms(1) by (intro list_all2_concat_map) (auto simp: only_raised_def elim: list_all2_mono)
  have 3: "map first_child_levels cs' = map first_child_levels (children s)"
    using assms(1) by (intro list_all2_map_eq) (auto simp: only_raised_def elim: list_all2_mono)
  show ?thesis
    using 1 2 3 assms(2) by (cases s) (simp add: only_raised_def)
qed

lemma arrange_only_raised:
  shows "list_all2 only_raised spans (snd (arrangeSpans spans))
         \<and> first_level (snd (arrangeSpans spans)) = first_level spans"
    and "only_raised sp (snd (arrangeSpan sp))
         \<and> height_level (snd (arrangeSpan sp)) = height_level sp"
proof (induction spans and sp rule: arrangeSpans_arrangeSpan.induct)
  case (1 spans)
  show ?case
  proof (cases "spans = []")
    case True
    then show ?thesis by simp
  next
    case False
    let ?mid = "map (\<lambda>sp. snd (arrangeSpan sp)) spans"
    let ?out = "snd (arrangeSpans spans)"
    from False 1 have ih: "\<And>x. x \<in> set spans \<Longrightarrow> only_raised x (snd (arrangeSpan x))
                                  \<and> height_level (snd (arrangeSpan x)) = height_level x"
      by simp
    have a: "list_all2 only_raised spans ?mid"
      using ih by (simp add: list_all2_conv_all_nth)
    have b: "list_all2 only_raised ?mid ?out"
      using arrangeSpans_out(1) [OF False]
      by (rule list_all2_mono) (rule bumped_only_raised)
    have c: "list_all2 only_raised spans ?out"
      using a b by (rule list_all2_trans [rotated]) (rule only_raised_trans)
    have "?out \<noteq> []"
      using False arrangeSpans_out(1) [OF False] by (auto dest: list_all2_lengthD)
    then have "first_level ?out = [height_level (snd (arrangeSpan (hd spans)))]"
      by (simp add: first_level_hd arrangeSpans_out(2) [OF False])
    also have "\<dots> = first_level spans"
      using False ih [of "hd spans"] by (simp add: first_level_hd)
    finally show ?thesis using c by simp
  qed
next
  case (2 sp)
  show ?case
  proof (cases "children sp = []")
    case True
    then show ?thesis by (simp add: arrangeSpan_out only_raised_refl)
  next
    case False
    with 2 have "list_all2 only_raised (children sp) (snd (arrangeSpans (children sp)))"
      and "first_level (snd (arrangeSpans (children sp))) = first_level (children sp)"
      by simp_all
    then have "only_raised sp (set_children sp (snd (arrangeSpans (children sp))))"
      by (rule set_children_only_raised)
    with False show ?thesis by (simp add: arrangeSpan_out)
  qed
qed

lemma first_levels_among_all:
  "set (first_child_levels sp) \<subseteq> set (all_levels sp)"
proof (induction sp)
  case (VisSpan i n s e p cs ev r a l)
  have "set (first_level cs) \<subseteq> (\<Union>c\<in>set cs. set (all_levels c))"
  proof (cases cs)
    case Nil
    then show ?thesis by (simp add: first_level_def)
  next
    case (Cons c rest)
    moreover have "height_level c \<in> set (all_levels c)" by (cases c) simp
    ultimately show ?thesis by (auto simp: first_level_def)
  qed
  moreover have "(\<Union>c\<in>set cs. set (first_child_levels c)) \<subseteq> (\<Union>c\<in>set cs. set (all_levels c))"
    using VisSpan by blast
  ultimately show ?case by auto
qed

section \<open>The time extent of the boxes\<close>

lemma Min_of_Mins:
  fixes F :: "'b \<Rightarrow> 'a::linorder set"
  assumes "xs \<noteq> []" and "\<And>x. x \<in> set xs \<Longrightarrow> finite (F x) \<and> F x \<noteq> {}"
  shows "Min ((\<lambda>x. Min (F x)) ` set xs) = Min (\<Union>x\<in>set xs. F x)"
  using assms
proof (induction xs)
  case Nil
  then show ?case by simp
next
  case (Cons x xs)
  show ?case
  proof (cases "xs = []")
    case True
    then show ?thesis by simp
  next
    case False
    with Cons have ih: "Min ((\<lambda>x. Min (F x)) ` set xs) = Min (\<Union>x\<in>set xs. F x)"
      by simp
    have fin: "finite (\<Union>x\<in>set xs. F x)" and ne: "(\<Union>x\<in>set xs. F x) \<noteq> {}"
      using Cons.prems(2) False by (auto simp: neq_Nil_conv)
    have "Min ((\<lambda>x. Min (F x)) ` set (x # xs))
          = min (Min (F x)) (Min ((\<lambda>x. Min (F x)) ` set xs))"
      using False by simp
    also have "\<dots> = Min (F x \<union> (\<Union>x\<in>set xs. F x))"
      using Cons.prems(2) [of x] fin ne by (simp add: ih Min_Un)
    finally show ?thesis by simp
  qed
qed

lemma Max_of_Maxs:
  fixes F :: "'b \<Rightarrow> 'a::linorder set"
  assumes "xs \<noteq> []" and "\<And>x. x \<in> set xs \<Longrightarrow> finite (F x) \<and> F x \<noteq> {}"
  shows "Max ((\<lambda>x. Max (F x)) ` set xs) = Max (\<Union>x\<in>set xs. F x)"
  using assms
proof (induction xs)
  case Nil
  then show ?case by simp
next
  case (Cons x xs)
  show ?case
  proof (cases "xs = []")
    case True
    then show ?thesis by simp
  next
    case False
    with Cons have ih: "Max ((\<lambda>x. Max (F x)) ` set xs) = Max (\<Union>x\<in>set xs. F x)"
      by simp
    have fin: "finite (\<Union>x\<in>set xs. F x)" and ne: "(\<Union>x\<in>set xs. F x) \<noteq> {}"
      using Cons.prems(2) False by (auto simp: neq_Nil_conv)
    have "Max ((\<lambda>x. Max (F x)) ` set (x # xs))
          = max (Max (F x)) (Max ((\<lambda>x. Max (F x)) ` set xs))"
      using False by simp
    also have "\<dots> = Max (F x \<union> (\<Union>x\<in>set xs. F x))"
      using Cons.prems(2) [of x] fin ne by (simp add: ih Max_Un)
    finally show ?thesis by simp
  qed
qed

lemma subtree_spans_unfold:
  "subtree_spans sp = sp # concat (map subtree_spans (children sp))"
  by (cases sp) simp

lemma subtree_spans_self: "sp \<in> set (subtree_spans sp)"
  by (cases sp) simp

lemma subtree_spans_not_Nil [simp]: "subtree_spans sp \<noteq> []"
  by (cases sp) simp

lemma arrange_time_extent:
  shows "spans \<noteq> [] \<longrightarrow>
           start_time (fst (arrangeSpans spans))
             = Min (startTime ` set (concat (map subtree_spans spans)))
           \<and> end_time (fst (arrangeSpans spans))
             = Max (endTime ` set (concat (map subtree_spans spans)))"
    and "start_time (fst (arrangeSpan sp)) = Min (startTime ` set (subtree_spans sp))
         \<and> end_time (fst (arrangeSpan sp)) = Max (endTime ` set (subtree_spans sp))"
proof (induction spans and sp rule: arrangeSpans_arrangeSpan.induct)
  case (1 spans)
  show ?case
  proof
    assume ne: "spans \<noteq> []"
    with 1 have ih:
      "\<And>x. x \<in> set spans \<Longrightarrow>
         start_time (fst (arrangeSpan x)) = Min (startTime ` set (subtree_spans x))
         \<and> end_time (fst (arrangeSpan x)) = Max (endTime ` set (subtree_spans x))"
      by simp
    have fin: "\<And>x. x \<in> set spans \<Longrightarrow> finite (startTime ` set (subtree_spans x))
                  \<and> startTime ` set (subtree_spans x) \<noteq> {}"
      "\<And>x. x \<in> set spans \<Longrightarrow> finite (endTime ` set (subtree_spans x))
                  \<and> endTime ` set (subtree_spans x) \<noteq> {}"
      by simp_all
    have "start_time (fst (arrangeSpans spans))
          = Min ((\<lambda>x. Min (startTime ` set (subtree_spans x))) ` set spans)"
      using ih by (simp add: arrangeSpans_box(1) [OF ne] cong: image_cong)
    also have "\<dots> = Min (\<Union>x\<in>set spans. startTime ` set (subtree_spans x))"
      using ne fin(1) by (rule Min_of_Mins)
    finally have s: "start_time (fst (arrangeSpans spans))
                  = Min (startTime ` set (concat (map subtree_spans spans)))"
      by (simp add: image_UN)
    have "end_time (fst (arrangeSpans spans))
          = Max ((\<lambda>x. Max (endTime ` set (subtree_spans x))) ` set spans)"
      using ih by (simp add: arrangeSpans_box(2) [OF ne] cong: image_cong)
    also have "\<dots> = Max (\<Union>x\<in>set spans. endTime ` set (subtree_spans x))"
      using ne fin(2) by (rule Max_of_Maxs)
    finally have e: "end_time (fst (arrangeSpans spans))
                  = Max (endTime ` set (concat (map subtree_spans spans)))"
      by (simp add: image_UN)
    from s e show "start_time (fst (arrangeSpans spans))
             = Min (startTime ` set (concat (map subtree_spans spans)))
           \<and> end_time (fst (arrangeSpans spans))
             = Max (endTime ` set (concat (map subtree_spans spans)))" ..
  qed
next
  case (2 sp)
  show ?case
  proof (cases "children sp = []")
    case True
    then show ?thesis by (simp add: arrangeSpan_box subtree_spans_unfold [of sp])
  next
    case False
    let ?D = "set (concat (map subtree_spans (children sp)))"
    from False 2 have ih:
      "start_time (fst (arrangeSpans (children sp))) = Min (startTime ` ?D)"
      "end_time (fst (arrangeSpans (children sp))) = Max (endTime ` ?D)"
      by simp_all
    have D: "finite ?D" "?D \<noteq> {}"
      using False subtree_spans_self by (auto simp: neq_Nil_conv)
    have set_eq: "set (subtree_spans sp) = insert sp ?D"
      by (subst subtree_spans_unfold) simp
    show ?thesis
      using False D by (simp add: arrangeSpan_box ih set_eq)
  qed
qed

lemma overlap_forest_arranged:
  "arrangeSpans overlap_forest =
     (\<lparr> start_time = 0, end_time = 150, height = 6 \<rparr>,
      [VisSpan ''A'' ''a'' 0 100 []
        [VisSpan ''A1'' ''a1'' 10 20 ''A'' [] [] \<lparr> resource_attributes = [] \<rparr> [] 0,
         VisSpan ''A2'' ''a2'' 15 30 ''A'' [] [] \<lparr> resource_attributes = [] \<rparr> [] 2]
        [] \<lparr> resource_attributes = [] \<rparr> [] 0,
      VisSpan ''B'' ''b'' 50 150 [] [] [] \<lparr> resource_attributes = [] \<rparr> [] 5])"
  by code_simp

section \<open>The layout where spans nest\<close>

lemma rel_height_children: "rel_height t = 1 + rows_used (children t)"
  by (cases t) simp

lemma rel_height_set_height_level [simp]: "rel_height (set_height_level t l) = rel_height t"
  by (cases t) simp

lemma rel_height_set_children [simp]: "rel_height (set_children t cs) = 1 + rows_used cs"
  by (cases t) simp

lemma rows_used_Max:
  "cs \<noteq> [] \<Longrightarrow> rows_used cs = Max (set (map (\<lambda>c. height_level c + rel_height c) cs))"
proof (induction cs)
  case Nil
  then show ?case by simp
next
  case (Cons c cs)
  then show ?case by (cases "cs = []") simp_all
qed

lemma bumped_rel_height: "bumped s s' \<Longrightarrow> rel_height s' = rel_height s"
  by (auto simp: bumped_def)

text \<open>The height of a box is the number of rows its spans take.\<close>

lemma box_height_rows:
  shows "height (fst (arrangeSpans spans)) = rows_used (snd (arrangeSpans spans))"
    and "height (fst (arrangeSpan sp)) = rel_height (snd (arrangeSpan sp))"
proof (induction spans and sp rule: arrangeSpans_arrangeSpan.induct)
  case (1 spans)
  show ?case
  proof (cases "spans = []")
    case True
    then show ?thesis by simp
  next
    case False
    let ?out = "snd (arrangeSpans spans)"
    from False 1 have ih: "\<And>x. x \<in> set spans \<Longrightarrow>
        height (fst (arrangeSpan x)) = rel_height (snd (arrangeSpan x))"
      by simp
    have b: "list_all2 bumped (map (\<lambda>sp. snd (arrangeSpan sp)) spans) ?out"
      by (rule arrangeSpans_out(1) [OF False])
    then have len: "length ?out = length spans"
      by (auto dest: list_all2_lengthD)
    have each: "height (fst (arrangeSpan (spans ! i))) = rel_height (?out ! i)"
      if "i < length spans" for i
    proof -
      from b that have "bumped (snd (arrangeSpan (spans ! i))) (?out ! i)"
        by (auto simp: list_all2_conv_all_nth)
      then show ?thesis
        using ih [of "spans ! i"] that by (simp add: bumped_rel_height)
    qed
    have "map2 (\<lambda>s' s. height_level s' + height (fst (arrangeSpan s))) ?out spans
          = map (\<lambda>c. height_level c + rel_height c) ?out"
      using len each by (intro nth_equalityI) simp_all
    moreover have "?out \<noteq> []" using len False by auto
    ultimately show ?thesis
      by (simp add: arrangeSpans_box(3) [OF False] rows_used_Max)
  qed
next
  case (2 sp)
  show ?case
  proof (cases "children sp = []")
    case True
    then show ?thesis
      by (simp add: arrangeSpan_box arrangeSpan_out rel_height_children)
  next
    case False
    with 2 show ?thesis
      by (simp add: arrangeSpan_box arrangeSpan_out)
  qed
qed

text \<open>After the loop over the siblings, no sibling collides with an earlier one.\<close>

lemma bump_until_free_free:
  "\<not> is_colliding_with_earlier prev (bump_until_free prev s b) b"
  using bump_until_free_first_free [of prev s b] by auto

lemma place_siblings_free:
  assumes "sorted_wrt (\<lambda>p q. \<not> isColliding (fst q) (snd q) (fst p) (snd p)) done"
  shows "sorted_wrt (\<lambda>p q. \<not> isColliding (fst q) (snd q) (fst p) (snd p))
           (place_siblings done todo)"
  using assms
proof (induction todo arbitrary: "done")
  case Nil
  then show ?case by simp
next
  case (Cons x todo)
  obtain s b where x: "x = (s, b)" by (cases x)
  have "\<forall>p\<in>set done. \<not> isColliding (bump_until_free done s b) b (fst p) (snd p)"
    using bump_until_free_free [of "done" s b]
    by (auto simp: is_colliding_with_earlier_def list_ex_iff)
  with Cons.prems
  have "sorted_wrt (\<lambda>p q. \<not> isColliding (fst q) (snd q) (fst p) (snd p))
          (done @ [(bump_until_free done s b, b)])"
    by (simp add: sorted_wrt_append)
  from Cons.IH [OF this] show ?case by (simp add: x)
qed

lemma well_laid_children: "well_laid t = (sorted_wrt clash_free (children t) \<and> list_all well_laid (children t))"
  by (cases t) simp

lemma well_laid_set_height_level [simp]: "well_laid (set_height_level t l) = well_laid t"
  by (cases t) simp

lemma well_laid_set_children [simp]:
  "well_laid (set_children t cs) = (sorted_wrt clash_free cs \<and> list_all well_laid cs)"
  by (cases t) simp

lemma bumped_well_laid: "bumped s s' \<Longrightarrow> well_laid s' = well_laid s"
  by (auto simp: bumped_def)

lemma arrange_well_laid:
  shows "sorted_wrt clash_free (snd (arrangeSpans spans))
         \<and> list_all well_laid (snd (arrangeSpans spans))"
    and "well_laid (snd (arrangeSpan sp))"
proof (induction spans and sp rule: arrangeSpans_arrangeSpan.induct)
  case (1 spans)
  show ?case
  proof (cases "spans = []")
    case True
    then show ?thesis by simp
  next
    case False
    let ?out = "snd (arrangeSpans spans)"
    define ps where "ps = map (\<lambda>sp. case arrangeSpan sp of (b, s) \<Rightarrow> (s, b)) spans"
    define placed where "placed = place_siblings [] ps"
    from False 1 have ih: "\<And>x. x \<in> set spans \<Longrightarrow> well_laid (snd (arrangeSpan x))"
      by simp
    have out: "?out = map fst placed"
      using False by (simp add: arrangeSpans.simps [of spans] arrange_boxes_def Let_def
            ps_def placed_def)
    have b: "list_all2 bumped (map (\<lambda>sp. snd (arrangeSpan sp)) spans) ?out"
      by (rule arrangeSpans_out(1) [OF False])
    then have len: "length ?out = length spans"
      by (auto dest: list_all2_lengthD)
    have bi: "bumped (snd (arrangeSpan (spans ! i))) (?out ! i)" if "i < length spans" for i
      using b that by (auto simp: list_all2_conv_all_nth)
    from place_siblings_shape [of "[]" ps]
    have boxes: "map snd placed = map (\<lambda>sp. fst (arrangeSpan sp)) spans"
      by (auto simp: placed_def ps_def split_beta)
    have hi: "height (snd (placed ! i)) = rel_height (?out ! i)" if "i < length spans" for i
    proof -
      have "snd (placed ! i) = fst (arrangeSpan (spans ! i))"
        using that boxes by (metis length_map nth_map)
      then show ?thesis
        using box_height_rows(2) [of "spans ! i"] bumped_rel_height [OF bi [OF that]]
        by simp
    qed
    have free: "sorted_wrt (\<lambda>p q. \<not> isColliding (fst q) (snd q) (fst p) (snd p)) placed"
      unfolding placed_def by (rule place_siblings_free) simp
    have "clash_free (?out ! i) (?out ! j)" if "i < j" "j < length ?out" for i j
    proof -
      from that len have ij: "i < length spans" "j < length spans" "j < length placed"
        "i < length placed"
        by (simp_all add: out)
      from free that(1) ij(3)
      have "\<not> isColliding (fst (placed ! j)) (snd (placed ! j))
                (fst (placed ! i)) (snd (placed ! i))"
        by (simp add: sorted_wrt_iff_nth_less)
      then show ?thesis
        using ij hi [OF ij(1)] hi [OF ij(2)]
        by (auto simp: clash_free_def isColliding_def Let_def out split: if_splits)
    qed
    then have 1: "sorted_wrt clash_free ?out"
      by (simp add: sorted_wrt_iff_nth_less)
    have "well_laid (?out ! i)" if "i < length ?out" for i
      using that len bi [of i] ih [of "spans ! i"] by (simp add: bumped_well_laid)
    then have 2: "list_all well_laid ?out"
      by (simp add: list_all_length)
    from 1 2 show ?thesis ..
  qed
next
  case (2 sp)
  show ?case
  proof (cases "children sp = []")
    case True
    then show ?thesis by (simp add: arrangeSpan_out well_laid_children)
  next
    case False
    with 2 show ?thesis by (simp add: arrangeSpan_out)
  qed
qed

lemma rows_used_ge: "c \<in> set cs \<Longrightarrow> height_level c + rel_height c \<le> rows_used cs"
  by (induction cs) auto

lemma nested_wf: "nested t \<Longrightarrow> startTime t \<le> endTime t"
  by (cases t) simp

lemma DrawSpan_unfold:
  "DrawSpan d c t =
     \<lparr> drawn_span = t, drawn_depth = d, drawn_row = c + height_level t \<rparr>
     # concat (map (DrawSpan (d + 1) (c + height_level t + 1)) (children t))"
  by (cases t) simp

text \<open>
  Every bar of a subtree lies on the rows of the box of the subtree, and, where the
  spans nest, within the time interval of the root of the subtree.
\<close>

lemma drawn_within:
  "nested t \<Longrightarrow> x \<in> set (DrawSpan d c t) \<Longrightarrow>
     c + height_level t \<le> drawn_row x \<and> drawn_row x < c + height_level t + rel_height t
     \<and> startTime t \<le> startTime (drawn_span x) \<and> endTime (drawn_span x) \<le> endTime t
     \<and> startTime (drawn_span x) \<le> endTime (drawn_span x)"
proof (induction t arbitrary: d c x)
  case (VisSpan i n s e p cs ev r a l)
  let ?t = "VisSpan i n s e p cs ev r a l"
  from VisSpan.prems(2)
  consider "x = \<lparr> drawn_span = ?t, drawn_depth = d, drawn_row = c + l \<rparr>"
    | k where "k \<in> set cs" "x \<in> set (DrawSpan (d + 1) (c + l + 1) k)"
    by auto
  then show ?case
  proof cases
    case 1
    with VisSpan.prems(1) show ?thesis by simp
  next
    case 2
    from VisSpan.prems(1) 2(1)
    have k: "s \<le> startTime k" "endTime k \<le> e" "nested k"
      by (simp_all add: list_all_iff)
    from VisSpan.IH [OF 2(1) k(3) 2(2)]
    have ih: "c + l + 1 + height_level k \<le> drawn_row x"
      "drawn_row x < c + l + 1 + height_level k + rel_height k"
      "startTime k \<le> startTime (drawn_span x)" "endTime (drawn_span x) \<le> endTime k"
      "startTime (drawn_span x) \<le> endTime (drawn_span x)"
      by simp_all
    from rows_used_ge [OF 2(1)] ih k show ?thesis
      by simp
  qed
qed

lemma sorted_wrt_concat_map:
  assumes "\<And>x. x \<in> set xs \<Longrightarrow> sorted_wrt P (f x)"
    and "sorted_wrt (\<lambda>x y. \<forall>a\<in>set (f x). \<forall>b\<in>set (f y). P a b) xs"
  shows "sorted_wrt P (concat (map f xs))"
  using assms
proof (induction xs)
  case Nil
  then show ?case by simp
next
  case (Cons x xs)
  then show ?case
    by (auto simp: sorted_wrt_append)
qed

text \<open>Bars of two siblings that do not clash, and of their subtrees, do not clash.\<close>

lemma isCollidingInAxis_iff:
  fixes b1 :: "'a::linorder"
  assumes "b1 \<le> e1" and "b2 \<le> e2"
  shows "isCollidingInAxis b1 e1 b2 e2 \<longleftrightarrow> b1 \<le> e2 \<and> b2 \<le> e1"
  using assms unfolding isCollidingInAxis_def isBetween_def by (meson le_cases order_trans)

lemma clash_free_subtrees:
  assumes "clash_free t u" and "nested t" and "nested u"
    and "x \<in> set (DrawSpan d c t)" and "y \<in> set (DrawSpan d c u)"
  shows "no_clash x y"
  unfolding no_clash_def
proof
  assume col: "isCollidingInAxis (startTime (drawn_span x)) (endTime (drawn_span x))
                 (startTime (drawn_span y)) (endTime (drawn_span y))"
  from drawn_within [OF assms(2,4)]
  have x: "c + height_level t \<le> drawn_row x" "drawn_row x < c + height_level t + rel_height t"
    "startTime t \<le> startTime (drawn_span x)" "endTime (drawn_span x) \<le> endTime t"
    "startTime (drawn_span x) \<le> endTime (drawn_span x)"
    by blast+
  from drawn_within [OF assms(3,5)]
  have y: "c + height_level u \<le> drawn_row y" "drawn_row y < c + height_level u + rel_height u"
    "startTime u \<le> startTime (drawn_span y)" "endTime (drawn_span y) \<le> endTime u"
    "startTime (drawn_span y) \<le> endTime (drawn_span y)"
    by blast+
  from assms(2,3) have wf: "startTime t \<le> endTime t" "startTime u \<le> endTime u"
    by (simp_all add: nested_wf)
  from col have xy: "startTime (drawn_span x) \<le> endTime (drawn_span y)"
    "startTime (drawn_span y) \<le> endTime (drawn_span x)"
    by (simp_all add: isCollidingInAxis_iff [OF x(5) y(5)])
  have "startTime u \<le> endTime t"
    using y(3) xy(2) x(4) by (meson order_trans)
  moreover have "startTime t \<le> endTime u"
    using x(3) xy(1) y(4) by (meson order_trans)
  ultimately have "isCollidingInAxis (startTime u) (endTime u) (startTime t) (endTime t)"
    by (simp add: isCollidingInAxis_iff [OF wf(2) wf(1)])
  with assms(1)
  have "\<not> isCollidingInAxis (height_level u) (height_level u + rel_height u)
           (height_level t) (height_level t + rel_height t)"
    by (simp add: clash_free_def)
  then have "height_level t + rel_height t < height_level u
             \<or> height_level u + rel_height u < height_level t"
    by (auto simp: isCollidingInAxis_iff not_le)
  with x(1,2) y(1,2) show "drawn_row x \<noteq> drawn_row y"
    by linarith
qed

lemma drawn_siblings_no_clash:
  assumes "sorted_wrt clash_free ts" and "\<And>t. t \<in> set ts \<Longrightarrow> nested t"
    and "\<And>t. t \<in> set ts \<Longrightarrow> sorted_wrt no_clash (DrawSpan d c t)"
  shows "sorted_wrt no_clash (concat (map (DrawSpan d c) ts))"
proof (rule sorted_wrt_concat_map)
  fix t assume "t \<in> set ts"
  then show "sorted_wrt no_clash (DrawSpan d c t)" by (rule assms(3))
next
  show "sorted_wrt (\<lambda>t u. \<forall>a\<in>set (DrawSpan d c t). \<forall>b\<in>set (DrawSpan d c u). no_clash a b) ts"
    using assms(1)
  proof (rule sorted_wrt_mono_rel [rotated])
    fix t u assume "t \<in> set ts" "u \<in> set ts" "clash_free t u"
    then show "\<forall>a\<in>set (DrawSpan d c t). \<forall>b\<in>set (DrawSpan d c u). no_clash a b"
      using assms(2) clash_free_subtrees by blast
  qed
qed

lemma drawn_subtree_no_clash:
  "nested t \<Longrightarrow> well_laid t \<Longrightarrow> sorted_wrt no_clash (DrawSpan d c t)"
proof (induction t arbitrary: d c)
  case (VisSpan i n s e p cs ev r a l)
  let ?t = "VisSpan i n s e p cs ev r a l"
  from VisSpan.prems have cs: "sorted_wrt clash_free cs" "\<And>k. k \<in> set cs \<Longrightarrow> nested k"
    "\<And>k. k \<in> set cs \<Longrightarrow> well_laid k"
    by (simp_all add: list_all_iff)
  have below: "no_clash \<lparr> drawn_span = ?t, drawn_depth = d, drawn_row = c + l \<rparr> y"
    if "y \<in> set (concat (map (DrawSpan (d + 1) (c + l + 1)) cs))" for y
  proof -
    from that obtain k where k: "k \<in> set cs" "y \<in> set (DrawSpan (d + 1) (c + l + 1) k)"
      by auto
    from drawn_within [OF cs(2) [OF k(1)] k(2)] have "c + l + 1 \<le> drawn_row y"
      by simp
    then show ?thesis by (simp add: no_clash_def)
  qed
  have "sorted_wrt no_clash (concat (map (DrawSpan (d + 1) (c + l + 1)) cs))"
    using cs(1,2)
  proof (rule drawn_siblings_no_clash)
    fix k assume "k \<in> set cs"
    then show "sorted_wrt no_clash (DrawSpan (d + 1) (c + l + 1) k)"
      using VisSpan.IH cs(2,3) by blast
  qed
  with below show ?case by simp
qed

lemma nested_clear_levels: "nested (clear_levels t) = nested t"
proof (induction t)
  case (VisSpan i n s e p cs ev r a l)
  have "startTime (clear_levels c) = startTime c \<and> endTime (clear_levels c) = endTime c" for c
    by (cases c) simp
  with VisSpan show ?case
    by (simp add: list_all_iff)
qed

text \<open>
  Where every span lies within the interval of its parent, no two bars of a lane that
  collide in time are on the same row.
\<close>

lemma no_overlap_when_nested:
  assumes "list_all nested spans"
  shows "sorted_wrt no_clash (DrawNodeSpans (snd (arrangeSpans spans)))"
proof -
  let ?out = "snd (arrangeSpans spans)"
  have r: "list_all2 only_raised spans ?out"
    using arrange_only_raised(1) [of spans] by simp
  have nested_out: "nested t" if "t \<in> set ?out" for t
  proof -
    from that obtain i where i: "i < length ?out" "t = ?out ! i"
      by (auto simp: in_set_conv_nth)
    with r have "only_raised (spans ! i) t" "i < length spans"
      by (auto simp: list_all2_conv_all_nth)
    then have "clear_levels t = clear_levels (spans ! i)" "nested (spans ! i)"
      using assms by (simp_all add: only_raised_def list_all_length)
    then show ?thesis
      using nested_clear_levels [of t] nested_clear_levels [of "spans ! i"] by simp
  qed
  have laid: "sorted_wrt clash_free ?out" "\<And>t. t \<in> set ?out \<Longrightarrow> well_laid t"
    using arrange_well_laid(1) [of spans] by (simp_all add: list_all_iff)
  show ?thesis
    unfolding DrawNodeSpans_def
    using laid(1) nested_out
  proof (rule drawn_siblings_no_clash)
    fix t assume "t \<in> set ?out"
    then show "sorted_wrt no_clash (DrawSpan 0 0 t)"
      using nested_out laid(2) drawn_subtree_no_clash by blast
  qed
qed


lemma list_ex_nth: "list_ex P xs \<longleftrightarrow> (\<exists>i<length xs. P (xs ! i))"
  unfolding list_ex_iff by (metis in_set_conv_nth)



lemma set_height_level_times [simp]:
  "startTime (set_height_level s l) = startTime s"
  "endTime (set_height_level s l) = endTime s"
  by (cases s; simp)+




section \<open>The dictionary and the children arrays of extractVisSpans\<close>

lemma index_prefix:
  "k \<le> length spans \<Longrightarrow>
   fold (\<lambda>i m. m(spanId (spans ! i) \<mapsto> i)) [0..<k] Map.empty ident = Some i
   \<longleftrightarrow> i < k \<and> spanId (spans ! i) = ident \<and> (\<forall>j. i < j \<and> j < k \<longrightarrow> spanId (spans ! j) \<noteq> ident)"
proof (induction k arbitrary: i)
  case 0
  then show ?case by simp
next
  case (Suc k)
  let ?M = "\<lambda>k. fold (\<lambda>i m. m(spanId (spans ! i) \<mapsto> i)) [0..<k] Map.empty"
  note ih = Suc.IH [OF Suc_leD [OF Suc.prems]]
  have step: "?M (Suc k) = (?M k)(spanId (spans ! k) \<mapsto> k)"
    by simp
  show ?case
  proof (cases "spanId (spans ! k) = ident")
    case True
    have "(i < Suc k \<and> spanId (spans ! i) = ident
           \<and> (\<forall>j. i < j \<and> j < Suc k \<longrightarrow> spanId (spans ! j) \<noteq> ident)) \<longleftrightarrow> i = k"
    proof
      assume a: "i < Suc k \<and> spanId (spans ! i) = ident
           \<and> (\<forall>j. i < j \<and> j < Suc k \<longrightarrow> spanId (spans ! j) \<noteq> ident)"
      show "i = k"
      proof (rule ccontr)
        assume "i \<noteq> k"
        with a have "i < k \<and> k < Suc k" by simp
        with a have "spanId (spans ! k) \<noteq> ident" by blast
        with True show False by simp
      qed
    next
      assume ik: "i = k"
      have "spanId (spans ! j) \<noteq> ident" if "i < j \<and> j < Suc k" for j
        using that ik by linarith
      then show "i < Suc k \<and> spanId (spans ! i) = ident
           \<and> (\<forall>j. i < j \<and> j < Suc k \<longrightarrow> spanId (spans ! j) \<noteq> ident)"
        using True ik by blast
    qed
    moreover have "?M (Suc k) ident = Some i \<longleftrightarrow> i = k"
      unfolding step using True by auto
    ultimately show ?thesis by (simp only:)
  next
    case False
    have "(i < Suc k \<and> spanId (spans ! i) = ident
           \<and> (\<forall>j. i < j \<and> j < Suc k \<longrightarrow> spanId (spans ! j) \<noteq> ident))
          \<longleftrightarrow> (i < k \<and> spanId (spans ! i) = ident
           \<and> (\<forall>j. i < j \<and> j < k \<longrightarrow> spanId (spans ! j) \<noteq> ident))"
      (is "?L \<longleftrightarrow> ?R")
    proof
      assume l: ?L
      then have "i \<noteq> k" using False by auto
      with l have "i < k" by simp
      moreover from l have "\<forall>j. i < j \<and> j < k \<longrightarrow> spanId (spans ! j) \<noteq> ident"
        by (simp add: less_Suc_eq)
      ultimately show ?R using l by simp
    next
      assume r: ?R
      have "spanId (spans ! j) \<noteq> ident" if "i < j \<and> j < Suc k" for j
      proof (cases "j = k")
        case True
        with False show ?thesis by simp
      next
        case False
        with that have "i < j \<and> j < k" by simp
        with r show ?thesis by blast
      qed
      with r show ?L by simp
    qed
    moreover have "?M (Suc k) ident = ?M k ident"
      unfolding step using False by simp
    ultimately show ?thesis using ih [of i] by (simp only:)
  qed
qed

lemma spanIdToSpan_Some:
  "spanIdToSpan spans ident = Some i
   \<longleftrightarrow> i < length spans \<and> spanId (spans ! i) = ident
       \<and> (\<forall>j. i < j \<and> j < length spans \<longrightarrow> spanId (spans ! j) \<noteq> ident)"
  unfolding spanIdToSpan_def by (rule index_prefix) simp

lemma spanIdToSpan_None:
  "spanIdToSpan spans ident = None \<longleftrightarrow> ident \<notin> spanId ` set spans"
proof
  assume n: "spanIdToSpan spans ident = None"
  show "ident \<notin> spanId ` set spans"
  proof
    assume "ident \<in> spanId ` set spans"
    then have ex: "\<exists>i. i < length spans \<and> spanId (spans ! i) = ident"
      by (auto simp: in_set_conv_nth)
    define i where "i = (GREATEST i. i < length spans \<and> spanId (spans ! i) = ident)"
    have "i < length spans \<and> spanId (spans ! i) = ident"
      unfolding i_def using ex by (rule GreatestI_ex_nat [where b = "length spans"]) simp
    moreover have "\<forall>j. i < j \<and> j < length spans \<longrightarrow> spanId (spans ! j) \<noteq> ident"
    proof (intro allI impI notI)
      fix j assume "i < j \<and> j < length spans" and "spanId (spans ! j) = ident"
      then have "j \<le> i"
        unfolding i_def by (intro Greatest_le_nat [where b = "length spans"]) auto
      with \<open>i < j \<and> j < length spans\<close> show False by simp
    qed
    ultimately have "spanIdToSpan spans ident = Some i"
      by (simp add: spanIdToSpan_Some)
    with n show False by simp
  qed
next
  assume "ident \<notin> spanId ` set spans"
  then have "\<And>i. spanIdToSpan spans ident \<noteq> Some i"
    by (auto simp: spanIdToSpan_Some)
  then show "spanIdToSpan spans ident = None"
    by (cases "spanIdToSpan spans ident") auto
qed

lemma push_prefix:
  assumes "k \<le> length spans"
  shows "fold (\<lambda>i cs. case spanIdToSpan spans (parentSpanId (spans ! i)) of
                     Some parent \<Rightarrow> cs[parent := cs ! parent @ [i]]
                   | None \<Rightarrow> cs)
           [0..<k] (replicate (length spans) [])
         = map (\<lambda>p. filter (\<lambda>i. spanIdToSpan spans (parentSpanId (spans ! i)) = Some p) [0..<k])
             [0..<length spans]"
  using assms
proof (induction k)
  case 0
  then show ?case by (simp add: map_replicate_trivial)
next
  case (Suc k)
  let ?par = "\<lambda>i. spanIdToSpan spans (parentSpanId (spans ! i))"
  let ?cs = "map (\<lambda>p. filter (\<lambda>i. ?par i = Some p) [0..<k]) [0..<length spans]"
  from Suc have ih: "fold (\<lambda>i cs. case ?par i of Some parent \<Rightarrow> cs[parent := cs ! parent @ [i]]
                   | None \<Rightarrow> cs) [0..<k] (replicate (length spans) []) = ?cs"
    by simp
  show ?case
  proof (cases "?par k")
    case None
    then show ?thesis by (simp add: ih)
  next
    case (Some parent)
    then have lt: "parent < length spans"
      by (simp add: spanIdToSpan_Some)
    have "?cs[parent := ?cs ! parent @ [k]]
          = map (\<lambda>p. filter (\<lambda>i. ?par i = Some p) [0..<Suc k]) [0..<length spans]"
      using lt Some by (intro nth_equalityI) (auto simp: nth_list_update)
    then show ?thesis
      using Some by (simp add: ih)
  qed
qed


lemma for_each_split:
  assumes "\<And>x s. body x s = (if bad x then Inl e else Inr (step x s))"
  shows "for_each body xs s = (if list_ex bad xs then Inl e else Inr (fold step xs s))"
proof (induction xs arbitrary: s)
  case Nil
  then show ?case by simp
next
  case (Cons x xs)
  show ?case
  proof (cases "bad x")
    case True
    then have "body x s = Inl e" by (simp add: assms)
    with True show ?thesis by simp
  next
    case False
    then have "body x s = Inr (step x s)" by (simp add: assms)
    then have "for_each body (x # xs) s = for_each body xs (step x s)" by simp
    also note Cons [of "step x s"]
    finally show ?thesis using False by simp
  qed
qed

lemma names_inherited_key_iff:
  "names_inherited_key spans
   \<longleftrightarrow> (\<exists>i<length spans. spanIdToSpan spans (parentSpanId (spans ! i)) = None
          \<and> parentSpanId (spans ! i) \<in> set (inherited_keys spans))"
  unfolding names_inherited_key_def list_ex_nth by (simp add: spanIdToSpan_None)

lemma push_children_eq:
  "push_children spans
   = (if names_inherited_key spans then Inl TypeError
      else Inr (map (\<lambda>p. filter (\<lambda>i. spanIdToSpan spans (parentSpanId (spans ! i)) = Some p)
                            [0..<length spans])
                  [0..<length spans]))"
proof -
  let ?bad = "\<lambda>i. spanIdToSpan spans (parentSpanId (spans ! i)) = None
                  \<and> parentSpanId (spans ! i) \<in> set (inherited_keys spans)"
  let ?step = "\<lambda>i cs. case spanIdToSpan spans (parentSpanId (spans ! i)) of
                         Some parent \<Rightarrow> cs[parent := cs ! parent @ [i]]
                       | None \<Rightarrow> cs"
  have body: "push_child spans i cs = (if ?bad i then Inl TypeError else Inr (?step i cs))"
    for i cs
    by (simp add: push_child_def split: option.splits)
  have "list_ex ?bad [0..<length spans] \<longleftrightarrow> names_inherited_key spans"
    unfolding names_inherited_key_iff list_ex_iff by auto
  moreover have "fold ?step [0..<length spans] (replicate (length spans) [])
                 = map (\<lambda>p. filter (\<lambda>i. spanIdToSpan spans (parentSpanId (spans ! i)) = Some p)
                            [0..<length spans])
                     [0..<length spans]"
    by (rule push_prefix) simp
  ultimately show ?thesis
    unfolding push_children_def for_each_split [of "push_child spans" ?bad TypeError ?step, OF body]
    by simp
qed

lemma extractVisSpans_throws:
  "extractVisSpans otel_requests = Inl TypeError
   \<longleftrightarrow> names_inherited_key (collect_spans otel_requests)"
  by (simp add: extractVisSpans_def Let_def push_children_eq)

lemma extractVisSpans_returns:
  assumes "\<not> names_inherited_key (collect_spans otel_requests)"
  shows "\<exists>forest. extractVisSpans otel_requests = Inr forest"
  using assms by (simp add: extractVisSpans_def Let_def push_children_eq)


lemma forest_children_length:
  "extractVisSpans otel_requests = Inr forest \<Longrightarrow>
   length (forest_children forest) = length (collect_spans otel_requests)"
  by (auto simp: extractVisSpans_def Let_def push_children_eq split: if_splits)

lemma forest_children_kids:
  assumes "extractVisSpans otel_requests = Inr forest"
    and "p < length (collect_spans otel_requests)"
  shows "distinct (forest_children forest ! p)
         \<and> set (forest_children forest ! p)
             = {i. i < length (collect_spans otel_requests)
                   \<and> spanIdToSpan (collect_spans otel_requests)
                       (parentSpanId (collect_spans otel_requests ! i)) = Some p}"
  using assms by (auto simp: extractVisSpans_def Let_def push_children_eq split: if_splits)

lemma top_level_set:
  "extractVisSpans otel_requests = Inr forest \<Longrightarrow>
   set (top_level_spans forest)
   = {i. i < length (collect_spans otel_requests)
         \<and> parentSpanId (collect_spans otel_requests ! i) = []}"
  by (auto simp: extractVisSpans_def Let_def push_children_eq split: if_splits)


text \<open>The number of steps from a span to the top of its chain of parents.\<close>

lemma reaches_root_empty [simp]: "reaches_root spans k []"
  by (cases k) simp_all










lemma set_children_twice [simp]: "set_children (set_children s cs) cs' = set_children s cs'"
  by (cases s) simp








section \<open>The layout and overlapping spans\<close>

text \<open>
  C1. The claim: two spans of a lane whose time intervals overlap and that are equally
  deep below their top-level spans are never drawn on the same row. Where every span
  lies within the interval of its parent, this holds, for spans of any depth
  (\<open>no_overlap_when_nested\<close>). The layout tests a sibling against the earlier ones with
  the spans' own intervals, not with the time extent of their boxes, so the claim fails
  where a child outlives its parent: in the lane of \<open>sticking_out_forest\<close> the
  top-level spans \<^verbatim>\<open>A\<close> over \<open>[0, 10]\<close> and \<^verbatim>\<open>B\<close> over \<open>[50, 60]\<close> both stay on row
  0, and their children \<^verbatim>\<open>A1\<close> over \<open>[0, 100]\<close> and \<^verbatim>\<open>B1\<close> over \<open>[50, 60]\<close>, both
  at depth 1, are both drawn on row 1.
\<close>

theorem sticking_out_children_share_a_row:
  "(\<exists>lanes. getNodeSpans localeCompare sticking_out_forest = Inr lanes
      \<and> map (\<lambda>lane. map (\<lambda>d. (spanId (drawn_span d), drawn_depth d, drawn_row d))
                         (DrawNodeSpans (ns_spans lane)))
          lanes
        = [[(''A'', 0, 0), (''A1'', 1, 1), (''B'', 0, 0), (''B1'', 1, 1)]])
   \<and> map (\<lambda>sp. (spanId sp, startTime sp, endTime sp))
       (concat (map subtree_spans sticking_out_forest))
     = [(''A'', 0, 10), (''A1'', 0, 100), (''B'', 50, 60), (''B1'', 50, 60)]
   \<and> isCollidingInAxis (0::rat) 100 50 60"
proof -
  have a: "arrangeSpans sticking_out_forest
        = (\<lparr> start_time = 0, end_time = 100, height = 2 \<rparr>, sticking_out_forest)"
    by code_simp
  have g: "spans_by_node_name sticking_out_forest
        = Inr [(''service.name missing'', sticking_out_forest)]"
    by code_simp
  have s: "sort_key startTime sticking_out_forest = sticking_out_forest"
    by code_simp
  have v: "Object_values [(''service.name missing'', sticking_out_forest)]
        = [(''service.name missing'', sticking_out_forest)]"
    by code_simp
  have "getNodeSpans localeCompare sticking_out_forest
        = Inr [\<lparr> ns_node = \<lparr> node_name = ''service.name missing'', node_attributes = [] \<rparr>,
                 ns_spans = sticking_out_forest,
                 ns_bbox = \<lparr> start_time = 0, end_time = 100, height = 2 \<rparr> \<rparr>]"
    by (simp add: getNodeSpans_def g v sort_with_def s a)
  then show ?thesis
    by (simp add: DrawNodeSpans_def)
       (simp add: sticking_out_forest_def isCollidingInAxis_def isBetween_def)
qed


section \<open>The span forest\<close>




text \<open>
  C3. The claim: a raw span whose parent identifier is not empty and is the identifier
  of no span of the input is a root of the forest. It is not: in \<open>orphan_export\<close> the
  span \<^verbatim>\<open>d\<close> (the second span) names the parent \<^verbatim>\<open>zz\<close>, which no span has, and the
  only top-level span is \<^verbatim>\<open>a\<close> (the first span); \<^verbatim>\<open>d\<close> is in no \<^verbatim>\<open>children\<close> either.
\<close>

theorem orphan_not_promoted_counterexample:
  "map (\<lambda>sp. (spanId sp, parentSpanId sp)) (collect_spans orphan_export)
     = [(''a'', []), (''d'', ''zz'')]
   \<and> ''zz'' \<notin> spanId ` set (collect_spans orphan_export)
   \<and> extractVisSpans orphan_export
       = Inr \<lparr> forest_spans = collect_spans orphan_export,
               forest_children = [[], []], top_level_spans = [0] \<rparr>"
  by code_simp

text \<open>
  C3, amended. A raw span whose parent identifier is not empty and is the identifier of
  no span of the input is never made a root. Where some span names, as a parent that no
  span has as its identifier, a key that the dictionary inherits (a key of
  \<^verbatim>\<open>Object.prototype\<close> such as \<^verbatim>\<open>constructor\<close>, or the name of a field of a span when
  a span has the identifier \<^verbatim>\<open>__proto__\<close>), \<^verbatim>\<open>extractVisSpans\<close> throws a
  \<^verbatim>\<open>TypeError\<close>; so it does when the span in question names such a key. Otherwise
  \<^verbatim>\<open>extractVisSpans\<close> returns and the span is dropped: it is not a top-level span of the
  forest and it is in no span's \<^verbatim>\<open>children\<close>. The top-level spans are the spans whose
  parent identifier is the empty string.
\<close>

theorem orphan_dropped:
  assumes "i < length (collect_spans otel_requests)"
    and "parentSpanId (collect_spans otel_requests ! i) \<noteq> []"
    and "parentSpanId (collect_spans otel_requests ! i)
         \<notin> spanId ` set (collect_spans otel_requests)"
  shows "(if \<exists>sp \<in> set (collect_spans otel_requests).
               parentSpanId sp \<notin> spanId ` set (collect_spans otel_requests)
               \<and> parentSpanId sp \<in> set (inherited_keys (collect_spans otel_requests))
          then extractVisSpans otel_requests = Inl TypeError
          else \<exists>forest. extractVisSpans otel_requests = Inr forest
                 \<and> i \<notin> set (top_level_spans forest)
                 \<and> (\<forall>p < length (collect_spans otel_requests).
                       i \<notin> set (forest_children forest ! p))
                 \<and> length (forest_children forest) = length (collect_spans otel_requests)
                 \<and> set (top_level_spans forest)
                     = {r. r < length (collect_spans otel_requests)
                           \<and> parentSpanId (collect_spans otel_requests ! r) = []})
         \<and> (parentSpanId (collect_spans otel_requests ! i)
               \<in> set (inherited_keys (collect_spans otel_requests))
             \<longrightarrow> extractVisSpans otel_requests = Inl TypeError)"
proof -
  let ?spans = "collect_spans otel_requests"
  let ?throws = "\<exists>sp \<in> set ?spans. parentSpanId sp \<notin> spanId ` set ?spans
                   \<and> parentSpanId sp \<in> set (inherited_keys ?spans)"
  have throws: "?throws \<longleftrightarrow> names_inherited_key ?spans"
    by (simp add: names_inherited_key_def list_ex_iff)
  have none: "spanIdToSpan ?spans (parentSpanId (?spans ! i)) = None"
    using assms(3) by (simp add: spanIdToSpan_None)
  have returns: "\<exists>forest. extractVisSpans otel_requests = Inr forest
                 \<and> i \<notin> set (top_level_spans forest)
                 \<and> (\<forall>p < length ?spans. i \<notin> set (forest_children forest ! p))
                 \<and> length (forest_children forest) = length ?spans
                 \<and> set (top_level_spans forest)
                     = {r. r < length ?spans \<and> parentSpanId (?spans ! r) = []}"
    if "\<not> ?throws"
  proof -
    from that throws have "\<not> names_inherited_key ?spans" by simp
    from extractVisSpans_returns [OF this]
    obtain forest where f: "extractVisSpans otel_requests = Inr forest"
      by blast
    have "i \<notin> set (top_level_spans forest)"
      using assms(2) by (simp add: top_level_set [OF f])
    moreover have "\<forall>p < length ?spans. i \<notin> set (forest_children forest ! p)"
      using none forest_children_kids [OF f] by simp
    ultimately show ?thesis
      using f forest_children_length [OF f] top_level_set [OF f] by blast
  qed
  have a: "extractVisSpans otel_requests = Inl TypeError" if "?throws"
    using that throws by (simp add: extractVisSpans_throws)
  have b: "?throws"
    if "parentSpanId (?spans ! i) \<in> set (inherited_keys ?spans)"
    using that assms(1,3) nth_mem [OF assms(1)] by blast
  show ?thesis
  proof (cases ?throws)
    case True
    show ?thesis
      unfolding if_P [OF True] using a [OF True] by simp
  next
    case False
    show ?thesis
      unfolding if_not_P [OF False] using returns [OF False] b False by blast
  qed
qed

theorem orphan_dropped_witness:
  "(1::nat) < length (collect_spans orphan_export)
   \<and> parentSpanId (collect_spans orphan_export ! 1) = ''zz''
   \<and> ''zz'' \<notin> spanId ` set (collect_spans orphan_export)
   \<and> ''zz'' \<notin> set (inherited_keys (collect_spans orphan_export))
   \<and> (\<exists>forest. extractVisSpans orphan_export = Inr forest
         \<and> 1 \<notin> set (top_level_spans forest)
         \<and> 1 \<notin> set (forest_children forest ! 0)
         \<and> 1 \<notin> set (forest_children forest ! 1)
         \<and> length (forest_children forest) = 2
         \<and> set (top_level_spans forest) = {0})
   \<and> (1::nat) < length (collect_spans inherited_key_export)
   \<and> parentSpanId (collect_spans inherited_key_export ! 1) = ''constructor''
   \<and> ''constructor'' \<notin> spanId ` set (collect_spans inherited_key_export)
   \<and> ''constructor'' \<in> set (inherited_keys (collect_spans inherited_key_export))
   \<and> extractVisSpans inherited_key_export = Inl TypeError"
proof -
  have c: "collect_spans orphan_export
           = [VisSpan ''a'' ''a'' 0 100 [] [] [] \<lparr> resource_attributes = [] \<rparr> [] 0,
              VisSpan ''d'' ''d'' 10 20 ''zz'' [] [] \<lparr> resource_attributes = [] \<rparr> [] 0]"
    by code_simp
  have k: "collect_spans inherited_key_export
           = [VisSpan ''a'' ''a'' 0 100 [] [] [] \<lparr> resource_attributes = [] \<rparr> [] 0,
              VisSpan ''d'' ''d'' 10 20 ''constructor'' [] []
                \<lparr> resource_attributes = [] \<rparr> [] 0]"
    by code_simp
  have e: "extractVisSpans orphan_export
       = Inr \<lparr> forest_spans = collect_spans orphan_export,
               forest_children = [[], []], top_level_spans = [0] \<rparr>"
    by code_simp
  have zz: "''zz'' \<notin> set (inherited_keys (collect_spans orphan_export))"
    by code_simp
  have con: "''constructor'' \<in> set (inherited_keys (collect_spans inherited_key_export))"
    by code_simp
  have 1: "\<exists>forest. extractVisSpans orphan_export = Inr forest
         \<and> 1 \<notin> set (top_level_spans forest)
         \<and> 1 \<notin> set (forest_children forest ! 0)
         \<and> 1 \<notin> set (forest_children forest ! 1)
         \<and> length (forest_children forest) = 2
         \<and> set (top_level_spans forest) = {0}"
    using orphan_dropped [of 1 orphan_export] zz by (simp add: c e)
  have 2: "extractVisSpans inherited_key_export = Inl TypeError"
    using orphan_dropped [of 1 inherited_key_export] con by (simp add: k)
  from 1 2 zz con show ?thesis
    by (simp add: c k)
qed

section \<open>The sibling collision rule\<close>




section \<open>The bounding box\<close>

text \<open>
  C5. For a list of spans that is not empty, the box \<^verbatim>\<open>arrangeSpans\<close> returns starts at
  the least \<^verbatim>\<open>startTime\<close> and ends at the greatest \<^verbatim>\<open>endTime\<close> of the listed spans and
  all their descendants, and its height is the greatest, over the listed spans, of the
  span's \<^verbatim>\<open>height_level\<close> after the layout plus the height of the box of its subtree.
\<close>

theorem bounding_box_tight:
  assumes "spans \<noteq> []"
  shows "start_time (fst (arrangeSpans spans))
           = Min (startTime ` set (concat (map subtree_spans spans)))
         \<and> end_time (fst (arrangeSpans spans))
           = Max (endTime ` set (concat (map subtree_spans spans)))
         \<and> height (fst (arrangeSpans spans))
           = Max (set (map2 (\<lambda>s' s. height_level s' + height (fst (arrangeSpan s)))
                        (snd (arrangeSpans spans)) spans))"
  using assms arrange_time_extent(1) [of spans] arrangeSpans_box(3) [of spans] by simp

theorem bounding_box_tight_witness:
  "overlap_forest \<noteq> []
   \<and> fst (arrangeSpans overlap_forest) = \<lparr> start_time = 0, end_time = 150, height = 6 \<rparr>
   \<and> Min (startTime ` set (concat (map subtree_spans overlap_forest))) = 0
   \<and> Max (endTime ` set (concat (map subtree_spans overlap_forest))) = 150
   \<and> Max (set (map2 (\<lambda>s' s. height_level s' + height (fst (arrangeSpan s)))
                  (snd (arrangeSpans overlap_forest)) overlap_forest)) = 6"
  using bounding_box_tight [of overlap_forest]
  by (simp add: overlap_forest_arranged) (simp add: overlap_forest_def)

section \<open>The screen map\<close>

text \<open>
  C6. For a window with \<^verbatim>\<open>endTime \<noteq> startTime\<close> and a width other than 0,
  \<^verbatim>\<open>screenToTime (timeToScreen t) = t\<close> for every time \<open>t\<close> (inside the window or
  not), exactly over the rationals; and \<^verbatim>\<open>timeToScreen (screenToTime x) = x\<close> for every
  pixel \<open>x\<close>: the two maps are inverse to each other.
\<close>

theorem screen_map_round_trip:
  assumes "endTime_tl timeline \<noteq> startTime_tl timeline" and "windowWidth \<noteq> 0"
  shows "screenToTime (timeToScreen t timeline windowWidth) timeline windowWidth = t
         \<and> timeToScreen (screenToTime x timeline windowWidth) timeline windowWidth = x"
  using assms by (simp add: screenToTime_def timeToScreen_def)

theorem screen_map_round_trip_witness:
  "endTime_tl TimelineState_new \<noteq> startTime_tl TimelineState_new \<and> (800::rat) \<noteq> 0
   \<and> startTime_tl TimelineState_new \<le> 1500000000
   \<and> 1500000000 \<le> endTime_tl TimelineState_new
   \<and> screenToTime (timeToScreen 1500000000 TimelineState_new 800) TimelineState_new 800
       = 1500000000
   \<and> timeToScreen (screenToTime 200 TimelineState_new 800) TimelineState_new 800 = 200"
  using screen_map_round_trip [of TimelineState_new 800 1500000000 200]
  by (simp add: TimelineState_new_def)

section \<open>Wheel zoom\<close>





section \<open>Empty input\<close>

text \<open>
  C8. \<^verbatim>\<open>arrangeSpans\<close> of the empty list returns the box
  \<^verbatim>\<open>{start_time: 0, end_time: 0, height: 0}\<close> (and no span), and \<^verbatim>\<open>getNodeSpans\<close> of
  the empty list of top-level spans returns, without throwing, no lane, whatever the
  collation.
\<close>

theorem empty_input_degenerate:
  "arrangeSpans [] = (\<lparr> start_time = 0, end_time = 0, height = 0 \<rparr>, [])
   \<and> getNodeSpans localeCompare [] = Inr []"
  by (simp add: arrangeSpans.simps getNodeSpans_def spans_by_node_name_def Object_values_def
        sort_with_def)

section \<open>Spans of a time range\<close>

text \<open>
  C9. \<^verbatim>\<open>getSpansForTimeRange\<close> returns, in their stored order, exactly the stored
  top-level spans whose own interval collides with the window \<open>[a, b]\<close> under the
  closed-interval test: an end of the window lies in \<open>[startTime, endTime]\<close> of the
  span, or an end of the span lies in \<open>[a, b]\<close>. For a window with \<open>a \<le> b\<close> and spans
  that do not end before they start, these are the spans whose closed interval meets
  \<open>[a, b]\<close>. The children of a span are not looked at: a top-level span outside the
  window is left out with its subtree, also when a descendant overlaps the window.
\<close>

theorem time_range_roots_only:
  "getSpansForTimeRange this a b
     = filter (\<lambda>sp. a \<in> {startTime sp..endTime sp} \<or> b \<in> {startTime sp..endTime sp}
                    \<or> startTime sp \<in> {a..b} \<or> endTime sp \<in> {a..b})
         (all_spans this)
   \<and> (a \<le> b \<and> (\<forall>sp \<in> set (all_spans this). startTime sp \<le> endTime sp)
        \<longrightarrow> getSpansForTimeRange this a b
            = filter (\<lambda>sp. {startTime sp..endTime sp} \<inter> {a..b} \<noteq> {}) (all_spans this))"
proof
  show "getSpansForTimeRange this a b
     = filter (\<lambda>sp. a \<in> {startTime sp..endTime sp} \<or> b \<in> {startTime sp..endTime sp}
                    \<or> startTime sp \<in> {a..b} \<or> endTime sp \<in> {a..b})
         (all_spans this)"
    by (simp add: getSpansForTimeRange_def isCollidingInAxis_def isBetween_def)
  show "a \<le> b \<and> (\<forall>sp \<in> set (all_spans this). startTime sp \<le> endTime sp)
        \<longrightarrow> getSpansForTimeRange this a b
            = filter (\<lambda>sp. {startTime sp..endTime sp} \<inter> {a..b} \<noteq> {}) (all_spans this)"
    unfolding getSpansForTimeRange_def
    by (intro impI filter_cong refl) (simp add: isCollidingInAxis_closed_intervals)
qed

theorem time_range_roots_only_witness:
  "(55::rat) \<le> 56
   \<and> startTime far_root \<le> endTime far_root \<and> startTime near_root \<le> endTime near_root
   \<and> isCollidingInAxis (startTime (hd (children far_root)))
         (endTime (hd (children far_root))) 55 56
   \<and> {startTime far_root..endTime far_root} \<inter> {55..56} = {}
   \<and> getSpansForTimeRange \<lparr> all_spans = [far_root, near_root] \<rparr> 55 56 = [near_root]"
  using time_range_roots_only [of "\<lparr> all_spans = [far_root, near_root] \<rparr>" 55 56]
  by (simp add: far_root_def near_root_def isCollidingInAxis_def isBetween_def)

section \<open>What the layout leaves alone\<close>

text \<open>
  C10. \<^verbatim>\<open>arrangeSpans\<close> and \<^verbatim>\<open>arrangeSpan\<close> write to \<^verbatim>\<open>height_level\<close> only: with
  every level set to 0, the spans after the layout are the spans before it, field by
  field, children and their order included. No level is lowered. The level of the first
  sibling of every group (the first top-level span, the first child of every span) is
  not changed, so it is 0 where every level was 0 before the layout; and
  \<^verbatim>\<open>arrangeSpan\<close> does not change the level of the span it is given.
\<close>

theorem layout_frame:
  "map clear_levels (snd (arrangeSpans spans)) = map clear_levels spans
   \<and> list_all2 (\<le>) (concat (map all_levels spans))
         (concat (map all_levels (snd (arrangeSpans spans))))
   \<and> first_sibling_levels (snd (arrangeSpans spans)) = first_sibling_levels spans
   \<and> (set (concat (map all_levels spans)) \<subseteq> {0}
        \<longrightarrow> set (first_sibling_levels (snd (arrangeSpans spans))) \<subseteq> {0})
   \<and> clear_levels (snd (arrangeSpan sp)) = clear_levels sp
   \<and> list_all2 (\<le>) (all_levels sp) (all_levels (snd (arrangeSpan sp)))
   \<and> height_level (snd (arrangeSpan sp)) = height_level sp
   \<and> first_child_levels (snd (arrangeSpan sp)) = first_child_levels sp"
proof -
  let ?out = "snd (arrangeSpans spans)"
  have r: "list_all2 only_raised spans ?out" and f: "first_level ?out = first_level spans"
    using arrange_only_raised(1) [of spans] by simp_all
  have 1: "map clear_levels ?out = map clear_levels spans"
    using r by (intro list_all2_map_eq) (auto simp: only_raised_def elim: list_all2_mono)
  have 2: "list_all2 (\<le>) (concat (map all_levels spans)) (concat (map all_levels ?out))"
    using r by (intro list_all2_concat_map) (auto simp: only_raised_def elim: list_all2_mono)
  have "map first_child_levels ?out = map first_child_levels spans"
    using r by (intro list_all2_map_eq) (auto simp: only_raised_def elim: list_all2_mono)
  with f have 3: "first_sibling_levels ?out = first_sibling_levels spans"
    by (simp add: first_sibling_levels_def)
  have "set (first_sibling_levels spans) \<subseteq> set (concat (map all_levels spans))"
  proof -
    have "set (first_level spans) \<subseteq> (\<Union>c\<in>set spans. set (all_levels c))"
    proof (cases spans)
      case Nil
      then show ?thesis by (simp add: first_level_def)
    next
      case (Cons c rest)
      moreover have "height_level c \<in> set (all_levels c)" by (cases c) simp
      ultimately show ?thesis by (auto simp: first_level_def)
    qed
    then show ?thesis
      using first_levels_among_all by (fastforce simp: first_sibling_levels_def)
  qed
  with 3 have 4: "set (concat (map all_levels spans)) \<subseteq> {0}
                  \<longrightarrow> set (first_sibling_levels ?out) \<subseteq> {0}"
    by auto
  from arrange_only_raised(2) [of sp] 1 2 3 4 show ?thesis
    by (simp add: only_raised_def)
qed

theorem layout_frame_witness:
  "set (concat (map all_levels overlap_forest)) \<subseteq> {0}
   \<and> map clear_levels (snd (arrangeSpans overlap_forest)) = map clear_levels overlap_forest
   \<and> concat (map all_levels (snd (arrangeSpans overlap_forest))) = [0, 0, 2, 5]
   \<and> first_sibling_levels (snd (arrangeSpans overlap_forest)) = [0, 0]
   \<and> height_level (snd (arrangeSpan (hd overlap_forest))) = 0"
  using layout_frame [of overlap_forest "hd overlap_forest"]
  by (simp add: overlap_forest_arranged)
     (simp add: overlap_forest_def first_sibling_levels_def first_level_def)

end
